theory Spec2Isabelle
  imports Main "HOL-Library.Word" "HOL-Library.Char_ord" "HOL-Library.List_Lexorder"
begin

section \<open>AlarmNotifications: the alarm aggregation core\<close>

text \<open>
  The development embeds \<^verbatim>\<open>alarmstatusentry.cpp\<close> and \<^verbatim>\<open>alarmserverconnector.cpp\<close>.
  Conventions of the embedding:
  \<^item> \<^verbatim>\<open>time_t\<close> is \<^verbatim>\<open>long\<close>; it is modelled as \<open>int\<close>. The only arithmetic on it is
    \<^verbatim>\<open>t + timeout\<close> with an \<^verbatim>\<open>unsigned int\<close> timeout, which cannot leave the range of
    \<^verbatim>\<open>long\<close> for \<^verbatim>\<open>LONG_MIN\<close> or for a reading of the system clock.
  \<^item> \<^verbatim>\<open>unsigned int\<close> is \<open>32 word\<close>, \<^verbatim>\<open>size_t\<close> is \<open>64 word\<close>.
  \<^item> \<^verbatim>\<open>std::map<std::string, AlarmStatusEntry>\<close> is an association list kept in the
    order of its keys, the order in which the map is iterated.
  \<^item> A C++ exception is the \<open>Inl\<close> branch of a sum.
  \<^item> What the ActiveMQ library and the thread library do while a connector is built is a
    parameter of the constructor, as the clock and the configuration are parameters of a
    tick.
  \<^item> The calls to the collaborators (flash light, Beedo, the detached notification
    threads) are appended to the field \<open>calls\<close> of the connector.
  \<^item> The three threads (message listener, watcher, flash light) are interleaved as a
    sequence of events; one iteration of a loop is one event, and reads the clock and
    the configuration once.
\<close>

subsection \<open>Errors\<close>

text \<open>
  The exceptions of the embedded code. \<open>LogicError\<close> is the \<^verbatim>\<open>std::logic_error\<close> that the
  constructor of the connector throws for its two flags; \<open>OutOfRange\<close> is the
  \<^verbatim>\<open>std::out_of_range\<close> of \<^verbatim>\<open>std::string::substr\<close>; \<open>RuntimeError\<close> and
  \<open>CMSException\<close> are what the constructor of \<^verbatim>\<open>CMSClient\<close> throws again;
  \<open>ThreadResourceError\<close> is the \<^verbatim>\<open>boost::thread_resource_error\<close> of a thread that cannot
  be started. In C++ \<^verbatim>\<open>std::out_of_range\<close> is derived from \<^verbatim>\<open>std::logic_error\<close>:
  \<open>is_logic_error\<close> is what a handler for \<^verbatim>\<open>std::logic_error\<close> catches.
\<close>

datatype error = LogicError | OutOfRange | RuntimeError | CMSException | ThreadResourceError

fun is_logic_error :: "error \<Rightarrow> bool" where
  "is_logic_error LogicError = True"
| "is_logic_error OutOfRange = True"
| "is_logic_error RuntimeError = False"
| "is_logic_error CMSException = False"
| "is_logic_error ThreadResourceError = False"

subsection \<open>\<^verbatim>\<open>AlarmStatusEntry\<close>\<close>

type_synonym time_t = int

record AlarmStatusEntry =
  pvname :: string
  severity :: string
  status :: string
  triggertime :: time_t
  desktopNotificationSent :: bool
  emailNotificationSent :: bool

text \<open>The constructor; \<open>now\<close> is the value of \<^verbatim>\<open>std::time(nullptr)\<close>.\<close>

definition newAlarmStatusEntry :: "string \<Rightarrow> string \<Rightarrow> string \<Rightarrow> time_t \<Rightarrow> AlarmStatusEntry" where
  "newAlarmStatusEntry pv sev st now =
     \<lparr>pvname = pv, severity = sev, status = st, triggertime = now,
      desktopNotificationSent = False, emailNotificationSent = False\<rparr>"

definition update :: "AlarmStatusEntry \<Rightarrow> AlarmStatusEntry \<Rightarrow> AlarmStatusEntry" where
  "update self newdata =
     (if triggertime self < triggertime newdata
      then self\<lparr>severity := severity newdata, status := status newdata\<rparr>
      else self)"

definition setDesktopNotificationSent :: "AlarmStatusEntry \<Rightarrow> bool \<Rightarrow> AlarmStatusEntry" where
  "setDesktopNotificationSent self b = self\<lparr>desktopNotificationSent := b\<rparr>"

definition setEmailNotificationSent :: "AlarmStatusEntry \<Rightarrow> bool \<Rightarrow> AlarmStatusEntry" where
  "setEmailNotificationSent self b = self\<lparr>emailNotificationSent := b\<rparr>"

subsection \<open>\<^verbatim>\<open>std::string::substr\<close> and the severity check\<close>

text \<open>
  \<^verbatim>\<open>substr(pos, n)\<close> throws \<^verbatim>\<open>std::out_of_range\<close> when \<^verbatim>\<open>pos > size()\<close>.
\<close>

definition substr :: "string \<Rightarrow> 64 word \<Rightarrow> 64 word \<Rightarrow> error + string" where
  "substr s pos n =
     (if length s < unat pos then Inl OutOfRange
      else Inr (take (unat n) (drop (unat pos) s)))"

text \<open>
  \<^verbatim>\<open>severity.length() - 4\<close> is computed in \<^verbatim>\<open>size_t\<close> and wraps around for a severity
  shorter than four characters.
\<close>

definition checkSeverityString :: "string \<Rightarrow> error + bool" where
  "checkSeverityString sev =
     (if sev = ''OK'' then Inr True
      else case substr sev (of_nat (length sev) - 4) 4 of
             Inl e \<Rightarrow> Inl e
           | Inr t \<Rightarrow> if t = ''_ACK'' then Inr True else Inr False)"

text \<open>
  The classification as the specification words it: cleared when the severity is
  \<^verbatim>\<open>OK\<close> or its last four characters are \<^verbatim>\<open>_ACK\<close>; anything shorter than four
  characters other than \<^verbatim>\<open>OK\<close> is not cleared.
\<close>

definition IsCleared_spec :: "string \<Rightarrow> bool" where
  "IsCleared_spec sev \<longleftrightarrow>
     sev = ''OK'' \<or> (4 \<le> length sev \<and> drop (length sev - 4) sev = ''_ACK'')"

subsection \<open>\<^verbatim>\<open>AlarmConfiguration\<close>\<close>

text \<open>
  The three timeouts the connector reads from the configuration singleton, in seconds;
  the fields carry the names of their getters.
\<close>

record AlarmConfiguration =
  getLaboratoryNotificationTimeout :: "32 word"
  getDesktopNotificationTimeout :: "32 word"
  getEMailNotificationTimeout :: "32 word"

subsection \<open>\<^verbatim>\<open>std::map\<close> as a list ordered by key\<close>

type_synonym statusmap_t = "(string \<times> AlarmStatusEntry) list"

text \<open>
  \<^verbatim>\<open>find\<close> is \<open>map_of\<close>. \<^verbatim>\<open>insert\<close> puts the pair at its place in the order of
  the keys and leaves the map as it is when the key is there already.
\<close>

fun map_insert :: "string \<Rightarrow> AlarmStatusEntry \<Rightarrow> statusmap_t \<Rightarrow> statusmap_t" where
  "map_insert k v [] = [(k, v)]"
| "map_insert k v ((k', v') # m) =
     (if k < k' then (k, v) # (k', v') # m
      else if k = k' then (k', v') # m
      else (k', v') # map_insert k v m)"

fun map_erase :: "string \<Rightarrow> statusmap_t \<Rightarrow> statusmap_t" where
  "map_erase k [] = []"
| "map_erase k ((k', v') # m) = (if k = k' then m else (k', v') # map_erase k m)"

text \<open>A change made through the iterator that \<^verbatim>\<open>find\<close> returned.\<close>

fun map_modify :: "string \<Rightarrow> (AlarmStatusEntry \<Rightarrow> AlarmStatusEntry) \<Rightarrow> statusmap_t \<Rightarrow> statusmap_t" where
  "map_modify k f [] = []"
| "map_modify k f ((k', v') # m) =
     (if k = k' then (k', f v') # m else (k', v') # map_modify k f m)"

subsection \<open>\<^verbatim>\<open>AlarmServerConnector\<close>\<close>

text \<open>The calls the connector makes to its collaborators.\<close>

datatype call =
    FlashLightSwitchOn
  | FlashLightSwitchOff
  | BeedoStart
  | BeedoStop
  | SendDesktopNotification "AlarmStatusEntry list"
  | SendEMailNotification "AlarmStatusEntry list"

record AlarmServerConnector =
  desktopVersion :: bool
  activateBeedo :: bool
  statusmap :: statusmap_t
  runwatcher :: bool
  flashlighton :: bool
  oldestAlarm :: time_t
  calls :: "call list"

text \<open>\<^verbatim>\<open>noAlarmActive\<close> is \<^verbatim>\<open>std::numeric_limits<long int>::min()\<close>.\<close>

definition noAlarmActive :: time_t where
  "noAlarmActive = - (2 ^ 63)"

text \<open>
  The constructor of \<^verbatim>\<open>CMSClient\<close> (\<^verbatim>\<open>cmsclient.cpp\<close>). \<open>ActiveMQ\<close> says which call
  into the library throws: \<^verbatim>\<open>initializeLibrary\<close> a \<^verbatim>\<open>std::runtime_error\<close>, the others a
  \<^verbatim>\<open>cms::CMSException\<close>. The constructor prints the exception and throws it again; the
  call of \<^verbatim>\<open>start\<close> is outside every \<^verbatim>\<open>try\<close>.
\<close>

record ActiveMQ =
  initializeLibrary_throws :: bool
  createConnection_throws :: bool
  start_throws :: bool
  createSession_throws :: bool

definition newCMSClient :: "ActiveMQ \<Rightarrow> error + unit" where
  "newCMSClient lib =
     (if initializeLibrary_throws lib then Inl RuntimeError
      else if createConnection_throws lib then Inl CMSException
      else if start_throws lib then Inl CMSException
      else if createSession_throws lib then Inl CMSException
      else Inr ())"

text \<open>
  What the constructor of the connector meets: the library of the \<^verbatim>\<open>_cmsclient\<close> member
  and whether the two \<^verbatim>\<open>boost::thread\<close> members can be started.
\<close>

record startup =
  activemq :: ActiveMQ
  watcher_starts :: bool
  flashlightthread_starts :: bool

text \<open>
  The constructor of the connector. The members are built in the order of their
  declaration, \<^verbatim>\<open>_cmsclient\<close> first, then \<^verbatim>\<open>_watcher\<close> and \<^verbatim>\<open>_flashlightthread\<close>; an
  exception there leaves the constructor before its body, where the two flags are tested.
  The iterations of the two threads are the tick events of a run.
\<close>

definition newAlarmServerConnector ::
  "startup \<Rightarrow> bool \<Rightarrow> bool \<Rightarrow> error + AlarmServerConnector" where
  "newAlarmServerConnector env desktop beedo =
     (case newCMSClient (activemq env) of
        Inl e \<Rightarrow> Inl e
      | Inr _ \<Rightarrow>
          if \<not> watcher_starts env then Inl ThreadResourceError
          else if \<not> flashlightthread_starts env then Inl ThreadResourceError
          else if \<not> desktop \<and> beedo then Inl LogicError
          else Inr \<lparr>desktopVersion = desktop, activateBeedo = beedo, statusmap = [],
                    runwatcher = True, flashlighton = False, oldestAlarm = noAlarmActive,
                    calls = []\<rparr>)"

text \<open>A start at which the libraries do their work.\<close>

definition startup_ok :: startup where
  "startup_ok =
     \<lparr>activemq = \<lparr>initializeLibrary_throws = False, createConnection_throws = False,
                  start_throws = False, createSession_throws = False\<rparr>,
      watcher_starts = True, flashlightthread_starts = True\<rparr>"

definition notifyStatusChange :: "AlarmServerConnector \<Rightarrow> AlarmStatusEntry \<Rightarrow> error + AlarmServerConnector" where
  "notifyStatusChange self st =
     (let pv = pvname st; entry = map_of (statusmap self) pv in
      case checkSeverityString (severity st) of
        Inl e \<Rightarrow> Inl e
      | Inr True \<Rightarrow>
          (if entry \<noteq> None
           then Inr (self\<lparr>statusmap := map_erase pv (statusmap self)\<rparr>)
           else Inr self)
      | Inr False \<Rightarrow>
          (let self' =
                 (if entry = None
                  then self\<lparr>statusmap := map_insert pv st (statusmap self)\<rparr>
                  else self\<lparr>statusmap := map_modify pv (\<lambda>e. update e st) (statusmap self)\<rparr>)
           in if oldestAlarm self' = noAlarmActive
              then Inr (self'\<lparr>oldestAlarm := triggertime st\<rparr>)
              else Inr self'))"

definition getNumberOfAlarms :: "AlarmServerConnector \<Rightarrow> nat" where
  "getNumberOfAlarms self = length (statusmap self)"

definition switchFlashLightOn :: "AlarmConfiguration \<Rightarrow> AlarmServerConnector \<Rightarrow> AlarmServerConnector" where
  "switchFlashLightOn cfg self =
     (if getLaboratoryNotificationTimeout cfg = 0 then self
      else self\<lparr>flashlighton := True, calls := calls self @ [FlashLightSwitchOn]\<rparr>)"

definition switchFlashLightOff :: "AlarmConfiguration \<Rightarrow> AlarmServerConnector \<Rightarrow> AlarmServerConnector" where
  "switchFlashLightOff cfg self =
     (if getLaboratoryNotificationTimeout cfg = 0 then self
      else self\<lparr>flashlighton := False, calls := calls self @ [FlashLightSwitchOff]\<rparr>)"

text \<open>
  The loop of \<^verbatim>\<open>prepareDesktopNotification\<close> over the map: the map after the loop and
  the vector \<^verbatim>\<open>alarmsToUse\<close>. \<open>t\<close> is the desktop timeout.
\<close>

fun prepareDesktopNotification_loop ::
  "int \<Rightarrow> time_t \<Rightarrow> statusmap_t \<Rightarrow> statusmap_t \<times> AlarmStatusEntry list" where
  "prepareDesktopNotification_loop t now [] = ([], [])"
| "prepareDesktopNotification_loop t now ((k, e) # m) =
     (case prepareDesktopNotification_loop t now m of
        (m', alarmsToUse) \<Rightarrow>
          if triggertime e + t \<le> now \<and> \<not> desktopNotificationSent e
          then ((k, setDesktopNotificationSent e True) # m',
                setDesktopNotificationSent e True # alarmsToUse)
          else ((k, e) # m', alarmsToUse))"

definition prepareDesktopNotification ::
  "AlarmConfiguration \<Rightarrow> time_t \<Rightarrow> AlarmServerConnector \<Rightarrow> AlarmServerConnector" where
  "prepareDesktopNotification cfg now self =
     (if getDesktopNotificationTimeout cfg = 0 then self
      else case prepareDesktopNotification_loop (uint (getDesktopNotificationTimeout cfg)) now
                  (statusmap self) of
        (m', alarmsToUse) \<Rightarrow>
          if 0 < length alarmsToUse
          then self\<lparr>statusmap := m', calls := calls self @ [SendDesktopNotification alarmsToUse]\<rparr>
          else self\<lparr>statusmap := m'\<rparr>)"

text \<open>The loop of \<^verbatim>\<open>prepareEMailNotification\<close>; the test on the trigger time is commented out in the source.\<close>

fun prepareEMailNotification_loop :: "statusmap_t \<Rightarrow> statusmap_t \<times> AlarmStatusEntry list" where
  "prepareEMailNotification_loop [] = ([], [])"
| "prepareEMailNotification_loop ((k, e) # m) =
     (case prepareEMailNotification_loop m of
        (m', alarmsToUse) \<Rightarrow>
          if \<not> emailNotificationSent e
          then ((k, setEmailNotificationSent e True) # m',
                setEmailNotificationSent e True # alarmsToUse)
          else ((k, e) # m', alarmsToUse))"

definition prepareEMailNotification ::
  "AlarmConfiguration \<Rightarrow> AlarmServerConnector \<Rightarrow> AlarmServerConnector" where
  "prepareEMailNotification cfg self =
     (if desktopVersion self then self
      else if getEMailNotificationTimeout cfg = 0 then self
      else case prepareEMailNotification_loop (statusmap self) of
        (m', alarmsToUse) \<Rightarrow>
          if 0 < length alarmsToUse
          then self\<lparr>statusmap := m', calls := calls self @ [SendEMailNotification alarmsToUse]\<rparr>
          else self\<lparr>statusmap := m'\<rparr>)"

text \<open>
  \<^verbatim>\<open>checkStatusMap\<close> is three statements in a row: the reset of \<^verbatim>\<open>_oldestAlarm\<close> on an
  empty map, the desktop notification, the e-mail notification.
\<close>

definition checkStatusMap_reset :: "AlarmServerConnector \<Rightarrow> AlarmServerConnector" where
  "checkStatusMap_reset self =
     (if length (statusmap self) = 0 \<and> oldestAlarm self \<noteq> noAlarmActive
      then (if activateBeedo self
            then self\<lparr>oldestAlarm := noAlarmActive, calls := calls self @ [BeedoStop]\<rparr>
            else self\<lparr>oldestAlarm := noAlarmActive\<rparr>)
      else self)"

definition checkStatusMap_desktop ::
  "AlarmConfiguration \<Rightarrow> time_t \<Rightarrow> AlarmServerConnector \<Rightarrow> AlarmServerConnector" where
  "checkStatusMap_desktop cfg now self =
     (if length (statusmap self) \<noteq> 0
         \<and> oldestAlarm self + uint (getDesktopNotificationTimeout cfg) \<le> now
      then (let s = prepareDesktopNotification cfg now self
            in if activateBeedo s then s\<lparr>calls := calls s @ [BeedoStart]\<rparr> else s)
      else self)"

definition checkStatusMap_email ::
  "AlarmConfiguration \<Rightarrow> time_t \<Rightarrow> AlarmServerConnector \<Rightarrow> AlarmServerConnector" where
  "checkStatusMap_email cfg now self =
     (if length (statusmap self) \<noteq> 0
         \<and> oldestAlarm self + uint (getEMailNotificationTimeout cfg) \<le> now
      then prepareEMailNotification cfg self
      else self)"

definition checkStatusMap ::
  "AlarmConfiguration \<Rightarrow> time_t \<Rightarrow> AlarmServerConnector \<Rightarrow> AlarmServerConnector" where
  "checkStatusMap cfg now self =
     checkStatusMap_email cfg now (checkStatusMap_desktop cfg now (checkStatusMap_reset self))"

text \<open>One iteration of the loop of \<^verbatim>\<open>operateFlashLight\<close>, after the \<^verbatim>\<open>sleep\<close>.\<close>

definition operateFlashLight_body ::
  "AlarmConfiguration \<Rightarrow> time_t \<Rightarrow> AlarmServerConnector \<Rightarrow> AlarmServerConnector" where
  "operateFlashLight_body cfg now self =
     (let s1 = (if \<not> flashlighton self \<and> length (statusmap self) \<noteq> 0
                   \<and> oldestAlarm self + uint (getLaboratoryNotificationTimeout cfg) \<le> now
                then switchFlashLightOn cfg self
                else self)
      in if flashlighton s1 \<and> length (statusmap s1) = 0
         then switchFlashLightOff cfg s1
         else s1)"

subsection \<open>The running service\<close>

text \<open>
  What can happen to a connector: \<^verbatim>\<open>CMSClient::onMessage\<close> builds a status entry from
  the name, the severity and the status of a message, at the clock's time, and hands it to
  \<^verbatim>\<open>notifyStatusChange\<close>; the watcher thread runs one iteration of \<^verbatim>\<open>startWatcher\<close>;
  the flash light thread runs one iteration of \<^verbatim>\<open>operateFlashLight\<close>. A tick carries
  the configuration and the clock it reads. The flash light thread has left
  \<^verbatim>\<open>operateFlashLight\<close> at once in the desktop version, and both loops stop when
  \<^verbatim>\<open>_runwatcher\<close> is false.
\<close>

datatype event =
    StatusChange string string string time_t
  | WatcherTick AlarmConfiguration time_t
  | FlashLightTick AlarmConfiguration time_t

fun step :: "AlarmServerConnector \<Rightarrow> event \<Rightarrow> error + AlarmServerConnector" where
  "step self (StatusChange pv sev st now) =
     notifyStatusChange self (newAlarmStatusEntry pv sev st now)"
| "step self (WatcherTick cfg now) =
     Inr (if runwatcher self then checkStatusMap cfg now self else self)"
| "step self (FlashLightTick cfg now) =
     Inr (if desktopVersion self then self
          else if runwatcher self then operateFlashLight_body cfg now self
          else self)"

text \<open>A sequence of events; an exception ends the run.\<close>

fun run :: "AlarmServerConnector \<Rightarrow> event list \<Rightarrow> error + AlarmServerConnector" where
  "run self [] = Inr self"
| "run self (ev # evs) =
     (case step self ev of Inl e \<Rightarrow> Inl e | Inr self' \<Rightarrow> run self' evs)"

text \<open>
  The map of a connector has one entry for a key, and the key of an entry is its PV name.
\<close>

definition statusmap_inv :: "statusmap_t \<Rightarrow> bool" where
  "statusmap_inv m \<longleftrightarrow> sorted_wrt (<) (map fst m) \<and> list_all (\<lambda>(k, e). pvname e = k) m"

text \<open>The calls made on the way from one state of the connector to a later one.\<close>

definition calls_since :: "AlarmServerConnector \<Rightarrow> AlarmServerConnector \<Rightarrow> call list" where
  "calls_since self self' = drop (length (calls self)) (calls self')"

text \<open>
  The count as the specification words it: the PVs whose most recent report in a sequence
  of events has a severity that is not cleared. \<open>most_recent_report\<close> is the severity of
  the last report for a PV.
\<close>

fun most_recent_report :: "string \<Rightarrow> event list \<Rightarrow> string option" where
  "most_recent_report pv [] = None"
| "most_recent_report pv (StatusChange p sev st now # evs) =
     (case most_recent_report pv evs of
        Some s \<Rightarrow> Some s
      | None \<Rightarrow> if p = pv then Some sev else None)"
| "most_recent_report pv (WatcherTick cfg now # evs) = most_recent_report pv evs"
| "most_recent_report pv (FlashLightTick cfg now # evs) = most_recent_report pv evs"

definition alarms_spec :: "event list \<Rightarrow> string set" where
  "alarms_spec evs = {pv. \<exists>sev. most_recent_report pv evs = Some sev \<and> \<not> IsCleared_spec sev}"

section \<open>Properties\<close>

subsection \<open>The severity check\<close>

lemma length_minus_4:
  "unat ((of_nat n :: 64 word) - 4) =
     (if 4 \<le> n mod 2 ^ 64 then n mod 2 ^ 64 - 4 else n mod 2 ^ 64 + 2 ^ 64 - 4)"
  by (simp add: unat_sub_if' unat_of_nat)

lemma checkSeverityString_short:
  assumes "length sev < 4" and "sev \<noteq> ''OK''"
  shows "checkSeverityString sev = Inl OutOfRange"
proof -
  have "length sev < unat ((of_nat (length sev) :: 64 word) - 4)"
    using assms(1) by (simp add: length_minus_4)
  then show ?thesis
    using assms(2) by (simp add: checkSeverityString_def substr_def)
qed

lemma checkSeverityString_long:
  assumes "4 \<le> length sev" and "length sev < 2 ^ 64"
  shows "checkSeverityString sev = Inr (drop (length sev - 4) sev = ''_ACK'')"
proof -
  have "unat ((of_nat (length sev) :: 64 word) - 4) = length sev - 4"
    using assms by (simp add: length_minus_4)
  moreover have "sev \<noteq> ''OK''" using assms by auto
  ultimately show ?thesis
    by (simp add: checkSeverityString_def substr_def)
qed

text \<open>
  Whenever the check returns, it returns what the specification asks for.
\<close>

lemma checkSeverityString_returns:
  assumes "length sev < 2 ^ 64" and "checkSeverityString sev = Inr b"
  shows "b = IsCleared_spec sev"
proof (cases "sev = ''OK''")
  case True
  then show ?thesis using assms by (simp add: checkSeverityString_def IsCleared_spec_def)
next
  case nok: False
  show ?thesis
  proof (cases "length sev < 4")
    case True
    then show ?thesis using nok assms checkSeverityString_short by simp
  next
    case False
    then show ?thesis
      using nok assms checkSeverityString_long [of sev] by (auto simp: IsCleared_spec_def)
  qed
qed

text \<open>
  C1. The specification wants \<^verbatim>\<open>IsCleared\<close> to return false, without error, on every
  severity shorter than four characters other than \<^verbatim>\<open>OK\<close>. The code does not: on the
  boundary inputs \<^verbatim>\<open>""\<close>, \<^verbatim>\<open>"A"\<close> and \<^verbatim>\<open>"ACK"\<close> the position handed to
  \<^verbatim>\<open>substr\<close> has wrapped around and \<^verbatim>\<open>std::out_of_range\<close> is thrown, where the
  specification's classification is false. On \<^verbatim>\<open>"X_ACK"\<close>, \<^verbatim>\<open>"OK"\<close> and \<^verbatim>\<open>"NOT_OK"\<close>
  the code returns true, true and false.
\<close>

theorem checkSeverityString_boundary:
  "checkSeverityString '''' = Inl OutOfRange
   \<and> checkSeverityString ''A'' = Inl OutOfRange
   \<and> checkSeverityString ''ACK'' = Inl OutOfRange
   \<and> checkSeverityString ''X_ACK'' = Inr True
   \<and> checkSeverityString ''OK'' = Inr True
   \<and> checkSeverityString ''NOT_OK'' = Inr False
   \<and> \<not> IsCleared_spec '''' \<and> \<not> IsCleared_spec ''A'' \<and> \<not> IsCleared_spec ''ACK''"
  using checkSeverityString_short [of "''''"] checkSeverityString_short [of "''A''"]
    checkSeverityString_short [of "''ACK''"] checkSeverityString_long [of "''X_ACK''"]
    checkSeverityString_long [of "''NOT_OK''"]
  by (simp add: checkSeverityString_def IsCleared_spec_def)

lemma checkSeverityString_examples:
  "checkSeverityString ''MAJOR'' = Inr False"
  "checkSeverityString ''MINOR'' = Inr False"
  "checkSeverityString ''MAJOR_ACK'' = Inr True"
  "checkSeverityString ''OK'' = Inr True"
  "checkSeverityString ''BAD'' = Inl OutOfRange"
  using checkSeverityString_long [of "''MAJOR''"] checkSeverityString_long [of "''MINOR''"]
    checkSeverityString_long [of "''MAJOR_ACK''"] checkSeverityString_short [of "''BAD''"]
  by (simp_all add: checkSeverityString_def)

subsection \<open>The map operations\<close>

lemma map_of_map_insert:
  "map_of m k = None \<Longrightarrow> map_of (map_insert k v m) k' = (if k' = k then Some v else map_of m k')"
  by (induction m) (auto split: if_splits)

lemma map_of_map_modify:
  "map_of (map_modify k f m) k' = (if k' = k then map_option f (map_of m k) else map_of m k')"
  by (induction m) auto

lemma map_of_map_erase_other:
  "k' \<noteq> k \<Longrightarrow> map_of (map_erase k m) k' = map_of m k'"
  by (induction m) auto

lemma keys_map_insert: "fst ` set (map_insert k v m) = insert k (fst ` set m)"
  by (induction k v m rule: map_insert.induct) (auto split: if_splits)

lemma keys_map_modify: "map fst (map_modify k f m) = map fst m"
  by (induction k f m rule: map_modify.induct) auto

lemma keys_map_erase_subset: "set (map_erase k m) \<subseteq> set m"
  by (induction k m rule: map_erase.induct) auto

lemma keys_map_erase:
  "distinct (map fst m) \<Longrightarrow> fst ` set (map_erase k m) = fst ` set m - {k}"
  by (induction k m rule: map_erase.induct) (auto split: if_splits simp: rev_image_eqI)

lemma map_of_map_erase_same:
  "distinct (map fst m) \<Longrightarrow> map_of (map_erase k m) k = None"
  by (simp add: map_of_eq_None_iff keys_map_erase)

lemma sorted_map_insert:
  "sorted_wrt (<) (map fst m) \<Longrightarrow> sorted_wrt (<) (map fst (map_insert k v m))"
proof (induction k v m rule: map_insert.induct)
  case (1 k v)
  then show ?case by simp
next
  case (2 k v k' v' m)
  have "\<forall>x \<in> fst ` set (map_insert k v m). k' < x" if "\<not> k < k'" "k \<noteq> k'"
    using that 2(2) by (auto simp: keys_map_insert)
  with 2 show ?case by (auto)
qed

lemma sorted_map_erase:
  "sorted_wrt (<) (map fst m) \<Longrightarrow> sorted_wrt (<) (map fst (map_erase k m))"
proof (induction k m rule: map_erase.induct)
  case (1 k)
  then show ?case by simp
next
  case (2 k k' v' m)
  have "set (map_erase k m) \<subseteq> set m" by (rule keys_map_erase_subset)
  with 2 show ?case by auto
qed

lemma strict_sorted_keys_distinct: "sorted_wrt (<) (map fst (m :: statusmap_t)) \<Longrightarrow> distinct (map fst m)"
  using strict_sorted_iff by blast

subsection \<open>The notification loops\<close>

lemma EMail_loop_eq:
  "prepareEMailNotification_loop m =
     (map (\<lambda>(k, e). (k, e\<lparr>emailNotificationSent := True\<rparr>)) m,
      map (\<lambda>e. e\<lparr>emailNotificationSent := True\<rparr>)
        (filter (\<lambda>e. \<not> emailNotificationSent e) (map snd m)))"
  by (induction m rule: prepareEMailNotification_loop.induct)
     (auto simp: setEmailNotificationSent_def)

lemma Desktop_loop_eq:
  "prepareDesktopNotification_loop t now m =
     (map (\<lambda>(k, e). (k, if triggertime e + t \<le> now then e\<lparr>desktopNotificationSent := True\<rparr> else e)) m,
      map (\<lambda>e. e\<lparr>desktopNotificationSent := True\<rparr>)
        (filter (\<lambda>e. triggertime e + t \<le> now \<and> \<not> desktopNotificationSent e) (map snd m)))"
  by (induction t now m rule: prepareDesktopNotification_loop.induct)
     (auto simp: setDesktopNotificationSent_def)

lemma calls_since_self [simp]: "calls_since s s = []"
  by (simp add: calls_since_def)

lemma calls_since_append: "calls s' = calls s @ cs \<Longrightarrow> calls_since s s' = cs"
  by (simp add: calls_since_def)

text \<open>What the desktop loop does to one entry, and the batch it collects.\<close>

lemma prepareDesktopNotification_fields [simp]:
  "desktopVersion (prepareDesktopNotification cfg now s) = desktopVersion s"
  "activateBeedo (prepareDesktopNotification cfg now s) = activateBeedo s"
  "runwatcher (prepareDesktopNotification cfg now s) = runwatcher s"
  "flashlighton (prepareDesktopNotification cfg now s) = flashlighton s"
  "oldestAlarm (prepareDesktopNotification cfg now s) = oldestAlarm s"
  by (simp_all add: prepareDesktopNotification_def split: prod.splits)

lemma prepareDesktopNotification_statusmap:
  "statusmap (prepareDesktopNotification cfg now s) =
     (if getDesktopNotificationTimeout cfg = 0 then statusmap s
      else map (\<lambda>(k, e). (k, if triggertime e + uint (getDesktopNotificationTimeout cfg) \<le> now
                               then e\<lparr>desktopNotificationSent := True\<rparr> else e)) (statusmap s))"
  by (simp add: prepareDesktopNotification_def Desktop_loop_eq)

lemma prepareDesktopNotification_calls:
  "calls (prepareDesktopNotification cfg now s) = calls s @
     (if getDesktopNotificationTimeout cfg = 0
         \<or> filter (\<lambda>e. triggertime e + uint (getDesktopNotificationTimeout cfg) \<le> now
                        \<and> \<not> desktopNotificationSent e) (map snd (statusmap s)) = []
      then []
      else [SendDesktopNotification (map (\<lambda>e. e\<lparr>desktopNotificationSent := True\<rparr>)
              (filter (\<lambda>e. triggertime e + uint (getDesktopNotificationTimeout cfg) \<le> now
                        \<and> \<not> desktopNotificationSent e) (map snd (statusmap s))))])"
  by (simp add: prepareDesktopNotification_def Desktop_loop_eq)

lemma prepareEMailNotification_fields [simp]:
  "desktopVersion (prepareEMailNotification cfg s) = desktopVersion s"
  "activateBeedo (prepareEMailNotification cfg s) = activateBeedo s"
  "runwatcher (prepareEMailNotification cfg s) = runwatcher s"
  "flashlighton (prepareEMailNotification cfg s) = flashlighton s"
  "oldestAlarm (prepareEMailNotification cfg s) = oldestAlarm s"
  by (simp_all add: prepareEMailNotification_def split: prod.splits)

lemma prepareEMailNotification_statusmap:
  "statusmap (prepareEMailNotification cfg s) =
     (if desktopVersion s \<or> getEMailNotificationTimeout cfg = 0 then statusmap s
      else map (\<lambda>(k, e). (k, e\<lparr>emailNotificationSent := True\<rparr>)) (statusmap s))"
  by (simp add: prepareEMailNotification_def EMail_loop_eq)

lemma prepareEMailNotification_calls:
  "calls (prepareEMailNotification cfg s) = calls s @
     (if desktopVersion s \<or> getEMailNotificationTimeout cfg = 0
         \<or> filter (\<lambda>e. \<not> emailNotificationSent e) (map snd (statusmap s)) = []
      then []
      else [SendEMailNotification (map (\<lambda>e. e\<lparr>emailNotificationSent := True\<rparr>)
              (filter (\<lambda>e. \<not> emailNotificationSent e) (map snd (statusmap s))))])"
  by (simp add: prepareEMailNotification_def EMail_loop_eq)

lemma checkStatusMap_reset_fields [simp]:
  "desktopVersion (checkStatusMap_reset s) = desktopVersion s"
  "activateBeedo (checkStatusMap_reset s) = activateBeedo s"
  "runwatcher (checkStatusMap_reset s) = runwatcher s"
  "flashlighton (checkStatusMap_reset s) = flashlighton s"
  "statusmap (checkStatusMap_reset s) = statusmap s"
  by (simp_all add: checkStatusMap_reset_def)

lemma checkStatusMap_reset_oldestAlarm:
  "oldestAlarm (checkStatusMap_reset s) =
     (if statusmap s = [] then noAlarmActive else oldestAlarm s)"
  by (simp add: checkStatusMap_reset_def)

lemma checkStatusMap_desktop_fields [simp]:
  "desktopVersion (checkStatusMap_desktop cfg now s) = desktopVersion s"
  "activateBeedo (checkStatusMap_desktop cfg now s) = activateBeedo s"
  "runwatcher (checkStatusMap_desktop cfg now s) = runwatcher s"
  "flashlighton (checkStatusMap_desktop cfg now s) = flashlighton s"
  "oldestAlarm (checkStatusMap_desktop cfg now s) = oldestAlarm s"
  by (simp_all add: checkStatusMap_desktop_def Let_def)

lemma checkStatusMap_email_fields [simp]:
  "desktopVersion (checkStatusMap_email cfg now s) = desktopVersion s"
  "activateBeedo (checkStatusMap_email cfg now s) = activateBeedo s"
  "runwatcher (checkStatusMap_email cfg now s) = runwatcher s"
  "flashlighton (checkStatusMap_email cfg now s) = flashlighton s"
  "oldestAlarm (checkStatusMap_email cfg now s) = oldestAlarm s"
  by (simp_all add: checkStatusMap_email_def)

lemma checkStatusMap_fields [simp]:
  "desktopVersion (checkStatusMap cfg now s) = desktopVersion s"
  "activateBeedo (checkStatusMap cfg now s) = activateBeedo s"
  "runwatcher (checkStatusMap cfg now s) = runwatcher s"
  "flashlighton (checkStatusMap cfg now s) = flashlighton s"
  by (simp_all add: checkStatusMap_def)

lemma checkStatusMap_oldestAlarm:
  "oldestAlarm (checkStatusMap cfg now s) =
     (if statusmap s = [] then noAlarmActive else oldestAlarm s)"
  by (simp add: checkStatusMap_def checkStatusMap_reset_oldestAlarm)

lemma operateFlashLight_body_fields [simp]:
  "desktopVersion (operateFlashLight_body cfg now s) = desktopVersion s"
  "activateBeedo (operateFlashLight_body cfg now s) = activateBeedo s"
  "runwatcher (operateFlashLight_body cfg now s) = runwatcher s"
  "statusmap (operateFlashLight_body cfg now s) = statusmap s"
  "oldestAlarm (operateFlashLight_body cfg now s) = oldestAlarm s"
  by (simp_all add: operateFlashLight_body_def Let_def switchFlashLightOn_def switchFlashLightOff_def)

lemma notifyStatusChange_fields:
  assumes "notifyStatusChange s st = Inr s'"
  shows "desktopVersion s' = desktopVersion s" "activateBeedo s' = activateBeedo s"
    "runwatcher s' = runwatcher s" "flashlighton s' = flashlighton s" "calls s' = calls s"
  using assms
  by (auto simp: notifyStatusChange_def Let_def split: sum.splits bool.splits if_splits)

lemma checkStatusMap_reset_calls:
  "calls (checkStatusMap_reset s) = calls s @
     (if statusmap s = [] \<and> oldestAlarm s \<noteq> noAlarmActive \<and> activateBeedo s then [BeedoStop] else [])"
  by (simp add: checkStatusMap_reset_def)

lemma checkStatusMap_desktop_calls:
  "calls (checkStatusMap_desktop cfg now s) = calls s @
     (if statusmap s \<noteq> [] \<and> oldestAlarm s + uint (getDesktopNotificationTimeout cfg) \<le> now
      then calls_since s (prepareDesktopNotification cfg now s)
           @ (if activateBeedo s then [BeedoStart] else [])
      else [])"
  by (simp add: checkStatusMap_desktop_def Let_def prepareDesktopNotification_calls calls_since_def)

lemma checkStatusMap_email_calls:
  "calls (checkStatusMap_email cfg now s) = calls s @
     (if statusmap s \<noteq> [] \<and> oldestAlarm s + uint (getEMailNotificationTimeout cfg) \<le> now
      then calls_since s (prepareEMailNotification cfg s)
      else [])"
  by (simp add: checkStatusMap_email_def prepareEMailNotification_calls calls_since_def)

lemma prepareDesktopNotification_calls_since:
  "calls_since s (prepareDesktopNotification cfg now s) =
     (if getDesktopNotificationTimeout cfg = 0
         \<or> filter (\<lambda>e. triggertime e + uint (getDesktopNotificationTimeout cfg) \<le> now
                        \<and> \<not> desktopNotificationSent e) (map snd (statusmap s)) = []
      then []
      else [SendDesktopNotification (map (\<lambda>e. e\<lparr>desktopNotificationSent := True\<rparr>)
              (filter (\<lambda>e. triggertime e + uint (getDesktopNotificationTimeout cfg) \<le> now
                        \<and> \<not> desktopNotificationSent e) (map snd (statusmap s))))])"
  by (rule calls_since_append) (rule prepareDesktopNotification_calls)

lemma prepareEMailNotification_calls_since:
  "calls_since s (prepareEMailNotification cfg s) =
     (if desktopVersion s \<or> getEMailNotificationTimeout cfg = 0
         \<or> filter (\<lambda>e. \<not> emailNotificationSent e) (map snd (statusmap s)) = []
      then []
      else [SendEMailNotification (map (\<lambda>e. e\<lparr>emailNotificationSent := True\<rparr>)
              (filter (\<lambda>e. \<not> emailNotificationSent e) (map snd (statusmap s))))])"
  by (rule calls_since_append) (rule prepareEMailNotification_calls)

lemma checkStatusMap_calls:
  "calls (checkStatusMap cfg now s) = calls s
     @ calls_since s (checkStatusMap_reset s)
     @ calls_since (checkStatusMap_reset s) (checkStatusMap_desktop cfg now (checkStatusMap_reset s))
     @ calls_since (checkStatusMap_desktop cfg now (checkStatusMap_reset s)) (checkStatusMap cfg now s)"
proof -
  let ?s1 = "checkStatusMap_reset s"
  let ?s2 = "checkStatusMap_desktop cfg now ?s1"
  have 1: "calls ?s1 = calls s @ calls_since s ?s1"
    by (subst checkStatusMap_reset_calls) (simp add: calls_since_def checkStatusMap_reset_calls)
  have 2: "calls ?s2 = calls ?s1 @ calls_since ?s1 ?s2"
    by (subst checkStatusMap_desktop_calls) (simp add: calls_since_def checkStatusMap_desktop_calls)
  have 3: "calls (checkStatusMap cfg now s) = calls ?s2 @ calls_since ?s2 (checkStatusMap cfg now s)"
    unfolding checkStatusMap_def
    by (subst checkStatusMap_email_calls) (simp add: calls_since_def checkStatusMap_email_calls)
  show ?thesis using 1 2 3 by simp
qed

lemma checkStatusMap_calls_cases:
  assumes "c \<in> set (calls_since s (checkStatusMap cfg now s))"
  shows "c = BeedoStop \<or> c = BeedoStart
           \<or> c = SendDesktopNotification (map (\<lambda>e. e\<lparr>desktopNotificationSent := True\<rparr>)
                  (filter (\<lambda>e. triggertime e + uint (getDesktopNotificationTimeout cfg) \<le> now
                        \<and> \<not> desktopNotificationSent e) (map snd (statusmap s))))
           \<or> (\<not> desktopVersion s \<and> getEMailNotificationTimeout cfg \<noteq> 0
                \<and> (\<exists>b. c = SendEMailNotification b))"
proof -
  let ?s1 = "checkStatusMap_reset s"
  let ?s2 = "checkStatusMap_desktop cfg now ?s1"
  have "calls_since s (checkStatusMap cfg now s) =
          calls_since s ?s1 @ calls_since ?s1 ?s2 @ calls_since ?s2 (checkStatusMap cfg now s)"
    by (rule calls_since_append) (rule checkStatusMap_calls)
  then consider "c \<in> set (calls_since s ?s1)" | "c \<in> set (calls_since ?s1 ?s2)"
    | "c \<in> set (calls_since ?s2 (checkStatusMap_email cfg now ?s2))"
    using assms by (auto simp: checkStatusMap_def)
  then show ?thesis
  proof cases
    case 1
    have "calls_since s ?s1 =
        (if statusmap s = [] \<and> oldestAlarm s \<noteq> noAlarmActive \<and> activateBeedo s then [BeedoStop] else [])"
      by (rule calls_since_append) (rule checkStatusMap_reset_calls)
    with 1 show ?thesis by (simp split: if_splits)
  next
    case 2
    have "calls_since ?s1 ?s2 =
       (if statusmap ?s1 \<noteq> [] \<and> oldestAlarm ?s1 + uint (getDesktopNotificationTimeout cfg) \<le> now
        then calls_since ?s1 (prepareDesktopNotification cfg now ?s1)
           @ (if activateBeedo ?s1 then [BeedoStart] else [])
        else [])"
      by (rule calls_since_append) (rule checkStatusMap_desktop_calls)
    with 2 show ?thesis
      by (auto simp: prepareDesktopNotification_calls_since split: if_splits)
  next
    case 3
    have "calls_since ?s2 (checkStatusMap_email cfg now ?s2) =
       (if statusmap ?s2 \<noteq> [] \<and> oldestAlarm ?s2 + uint (getEMailNotificationTimeout cfg) \<le> now
        then calls_since ?s2 (prepareEMailNotification cfg ?s2)
        else [])"
      by (rule calls_since_append) (rule checkStatusMap_email_calls)
    with 3 show ?thesis
      by (auto simp: prepareEMailNotification_calls_since split: if_splits)
  qed
qed

lemma operateFlashLight_body_calls:
  "calls (operateFlashLight_body cfg now s) = calls s
     @ (if getLaboratoryNotificationTimeout cfg \<noteq> 0 \<and> \<not> flashlighton s \<and> statusmap s \<noteq> []
           \<and> oldestAlarm s + uint (getLaboratoryNotificationTimeout cfg) \<le> now
        then [FlashLightSwitchOn] else [])
     @ (if getLaboratoryNotificationTimeout cfg \<noteq> 0 \<and> flashlighton s \<and> statusmap s = []
        then [FlashLightSwitchOff] else [])"
  by (simp add: operateFlashLight_body_def Let_def switchFlashLightOn_def switchFlashLightOff_def)

lemma operateFlashLight_body_flashlighton:
  "flashlighton (operateFlashLight_body cfg now s) =
     (if getLaboratoryNotificationTimeout cfg = 0 then flashlighton s
      else if flashlighton s then statusmap s \<noteq> []
      else statusmap s \<noteq> [] \<and> oldestAlarm s + uint (getLaboratoryNotificationTimeout cfg) \<le> now)"
  by (simp add: operateFlashLight_body_def Let_def switchFlashLightOn_def switchFlashLightOff_def)

lemma calls_since_eq: "calls s' = calls s @ cs \<Longrightarrow> calls s' = calls s @ calls_since s s'"
  by (simp add: calls_since_def)

lemma step_calls:
  assumes "step s ev = Inr s'"
  shows "calls s' = calls s @ calls_since s s'"
proof (cases ev)
  case (StatusChange pv sev st now)
  then show ?thesis
    using assms notifyStatusChange_fields(5) [of s _ s'] by (simp add: calls_since_def)
next
  case (WatcherTick cfg now)
  have "calls (checkStatusMap cfg now s) = calls s @ calls_since s (checkStatusMap cfg now s)"
    by (rule calls_since_eq) (rule checkStatusMap_calls)
  then show ?thesis
    using assms WatcherTick by (cases "runwatcher s") auto
next
  case (FlashLightTick cfg now)
  have "calls (operateFlashLight_body cfg now s) = calls s @ calls_since s (operateFlashLight_body cfg now s)"
    by (rule calls_since_eq) (rule operateFlashLight_body_calls)
  then show ?thesis
    using assms FlashLightTick by (cases "desktopVersion s"; cases "runwatcher s") auto
qed

lemma run_calls:
  "run s evs = Inr s' \<Longrightarrow> calls s' = calls s @ calls_since s s'"
proof (induction evs arbitrary: s)
  case Nil
  then show ?case by simp
next
  case (Cons ev evs)
  from Cons.prems obtain s1 where s1: "step s ev = Inr s1" and r: "run s1 evs = Inr s'"
    by (cases "step s ev") auto
  obtain a where a: "calls s1 = calls s @ a" using step_calls [OF s1] by blast
  obtain b where b: "calls s' = calls s1 @ b" using Cons.IH [OF r] by blast
  have "calls s' = calls s @ (a @ b)" by (simp add: a b)
  then show ?case by (rule calls_since_eq)
qed

lemma calls_since_Cons:
  assumes "step s ev = Inr s1" and "run s1 evs = Inr s'"
  shows "calls_since s s' = calls_since s s1 @ calls_since s1 s'"
proof -
  have "calls s' = calls s @ (calls_since s s1 @ calls_since s1 s')"
    by (subst run_calls [OF assms(2)], subst step_calls [OF assms(1)]) simp
  then show ?thesis by (rule calls_since_append)
qed

subsection \<open>The entries of the map after a step\<close>

lemma set_map_insert: "set (map_insert k v m) \<subseteq> insert (k, v) (set m)"
  by (induction k v m rule: map_insert.induct) auto

lemma set_map_modify:
  "(k', e') \<in> set (map_modify k f m) \<Longrightarrow>
     (k', e') \<in> set m \<or> (k' = k \<and> (\<exists>e. (k, e) \<in> set m \<and> e' = f e))"
  by (induction k f m rule: map_modify.induct) (auto split: if_splits)

lemma notifyStatusChange_statusmap:
  assumes "notifyStatusChange s st = Inr s'"
  shows "statusmap s' =
     (if checkSeverityString (severity st) = Inr True
      then (if map_of (statusmap s) (pvname st) \<noteq> None
            then map_erase (pvname st) (statusmap s) else statusmap s)
      else (if map_of (statusmap s) (pvname st) = None
            then map_insert (pvname st) st (statusmap s)
            else map_modify (pvname st) (\<lambda>e. update e st) (statusmap s)))"
  using assms
  by (auto simp: notifyStatusChange_def Let_def split: sum.splits bool.splits if_splits)

lemma notifyStatusChange_entries:
  assumes "notifyStatusChange s st = Inr s'" and "(k, e') \<in> set (statusmap s')"
  shows "(k, e') \<in> set (statusmap s) \<or> (k = pvname st \<and> e' = st)
     \<or> (k = pvname st \<and> (\<exists>e. (k, e) \<in> set (statusmap s) \<and> e' = update e st))"
proof -
  note eq = notifyStatusChange_statusmap [OF assms(1)]
  consider "statusmap s' = statusmap s" | "statusmap s' = map_erase (pvname st) (statusmap s)"
    | "statusmap s' = map_insert (pvname st) st (statusmap s)"
    | "statusmap s' = map_modify (pvname st) (\<lambda>e. update e st) (statusmap s)"
    using eq by (auto split: if_splits)
  then show ?thesis
  proof cases
    case 1
    then show ?thesis using assms(2) by simp
  next
    case 2
    then show ?thesis using assms(2) keys_map_erase_subset by fastforce
  next
    case 3
    then show ?thesis using assms(2) set_map_insert by fastforce
  next
    case 4
    then show ?thesis using assms(2) set_map_modify [of k e' "pvname st" "\<lambda>e. update e st" "statusmap s"]
      by auto
  qed
qed

lemma notifyStatusChange_error:
  "notifyStatusChange s st = Inl e \<Longrightarrow> e = OutOfRange \<and> checkSeverityString (severity st) = Inl OutOfRange"
  by (auto simp: notifyStatusChange_def Let_def checkSeverityString_def substr_def
      split: sum.splits bool.splits if_splits)

lemma checkStatusMap_desktop_statusmap:
  "statusmap (checkStatusMap_desktop cfg now s) =
     (if statusmap s \<noteq> [] \<and> oldestAlarm s + uint (getDesktopNotificationTimeout cfg) \<le> now
         \<and> getDesktopNotificationTimeout cfg \<noteq> 0
      then map (\<lambda>(k, e). (k, if triggertime e + uint (getDesktopNotificationTimeout cfg) \<le> now
                               then e\<lparr>desktopNotificationSent := True\<rparr> else e)) (statusmap s)
      else statusmap s)"
  by (simp add: checkStatusMap_desktop_def Let_def prepareDesktopNotification_statusmap)

lemma checkStatusMap_email_statusmap:
  "statusmap (checkStatusMap_email cfg now s) =
     (if statusmap s \<noteq> [] \<and> oldestAlarm s + uint (getEMailNotificationTimeout cfg) \<le> now
         \<and> \<not> desktopVersion s \<and> getEMailNotificationTimeout cfg \<noteq> 0
      then map (\<lambda>(k, e). (k, e\<lparr>emailNotificationSent := True\<rparr>)) (statusmap s)
      else statusmap s)"
  by (simp add: checkStatusMap_email_def Let_def prepareEMailNotification_statusmap)

text \<open>A tick of the watcher leaves the keys alone and can only raise the two flags of an entry.\<close>

lemma checkStatusMap_statusmap:
  "\<exists>f. statusmap (checkStatusMap cfg now s) = map (\<lambda>(k, e). (k, f e)) (statusmap s)
     \<and> (\<forall>e. pvname (f e) = pvname e \<and> severity (f e) = severity e \<and> status (f e) = status e
            \<and> triggertime (f e) = triggertime e
            \<and> (desktopNotificationSent e \<longrightarrow> desktopNotificationSent (f e))
            \<and> (emailNotificationSent e \<longrightarrow> emailNotificationSent (f e))
            \<and> (desktopVersion s \<longrightarrow> emailNotificationSent (f e) = emailNotificationSent e))"
proof -
  let ?P = "\<lambda>s f. (\<forall>e. pvname (f e) = pvname e \<and> severity (f e) = severity e \<and> status (f e) = status e
            \<and> triggertime (f e) = triggertime e
            \<and> (desktopNotificationSent e \<longrightarrow> desktopNotificationSent (f e))
            \<and> (emailNotificationSent e \<longrightarrow> emailNotificationSent (f e))
            \<and> (desktopVersion s \<longrightarrow> emailNotificationSent (f e) = emailNotificationSent e))"
  let ?s1 = "checkStatusMap_reset s"
  let ?s2 = "checkStatusMap_desktop cfg now ?s1"
  have id: "m = map (\<lambda>(k, e). (k, id e)) m" for m :: statusmap_t by (induction m) auto
  obtain f where f: "statusmap ?s2 = map (\<lambda>(k, e). (k, f e)) (statusmap s)" "?P s f"
  proof (cases "statusmap ?s2 = statusmap s")
    case True
    show ?thesis by (rule that [of id]) (use True id in auto)
  next
    case False
    then have "statusmap ?s2 = map (\<lambda>(k, e). (k, if triggertime e + uint (getDesktopNotificationTimeout cfg) \<le> now
                               then e\<lparr>desktopNotificationSent := True\<rparr> else e)) (statusmap s)"
      by (simp add: checkStatusMap_desktop_statusmap split: if_splits)
    then show ?thesis by (rule that) simp
  qed
  obtain g where g: "statusmap (checkStatusMap cfg now s) = map (\<lambda>(k, e). (k, g e)) (statusmap ?s2)" "?P s g"
  proof (cases "statusmap (checkStatusMap cfg now s) = statusmap ?s2")
    case True
    show ?thesis by (rule that [of id]) (use True id in auto)
  next
    case False
    then have m: "statusmap (checkStatusMap cfg now s) = map (\<lambda>(k, e). (k, e\<lparr>emailNotificationSent := True\<rparr>)) (statusmap ?s2)"
      and d: "\<not> desktopVersion s"
      by (simp_all add: checkStatusMap_def checkStatusMap_email_statusmap split: if_splits)
    show ?thesis by (rule that [OF m]) (simp add: d)
  qed
  have "statusmap (checkStatusMap cfg now s) = map (\<lambda>(k, e). (k, (g \<circ> f) e)) (statusmap s)"
    by (simp add: g(1) f(1) case_prod_unfold)
  moreover have "?P s (g \<circ> f)" using f(2) g(2) by simp
  ultimately show ?thesis by blast
qed

text \<open>The equations that evaluate a run on given events.\<close>

lemmas eval_defs =
  notifyStatusChange_def checkSeverityString_examples newAlarmStatusEntry_def update_def
  checkStatusMap_def checkStatusMap_reset_def checkStatusMap_desktop_def
  checkStatusMap_email_def prepareDesktopNotification_def prepareEMailNotification_def
  setDesktopNotificationSent_def setEmailNotificationSent_def operateFlashLight_body_def
  switchFlashLightOn_def switchFlashLightOff_def noAlarmActive_def Let_def

subsection \<open>The constructor\<close>

lemma step_error: "step s ev = Inl e \<Longrightarrow> e = OutOfRange"
  by (cases ev) (auto dest: notifyStatusChange_error)


text \<open>
  The exception of a later operation is not the one of the constructor, though a handler
  for \<^verbatim>\<open>std::logic_error\<close> catches both.
\<close>

lemma step_error_is_logic_error:
  "step s ev = Inl e \<Longrightarrow> e \<noteq> LogicError \<and> is_logic_error e"
  using step_error [of s ev e] by auto




subsection \<open>The flash light\<close>

lemma step_flashlight_off:
  assumes "\<not> flashlighton s" and "step s ev = Inr s'"
    and "\<forall>cfg now. ev = FlashLightTick cfg now \<longrightarrow> getLaboratoryNotificationTimeout cfg = 0"
  shows "\<not> flashlighton s' \<and> FlashLightSwitchOn \<notin> set (calls_since s s')"
proof (cases ev)
  case (StatusChange pv sev st now)
  then have n: "notifyStatusChange s (newAlarmStatusEntry pv sev st now) = Inr s'"
    using assms(2) by simp
  have "calls_since s s' = []"
    by (rule calls_since_append) (simp add: notifyStatusChange_fields(5) [OF n])
  then show ?thesis using assms(1) notifyStatusChange_fields(4) [OF n] by simp
next
  case (WatcherTick cfg now)
  show ?thesis
  proof (cases "runwatcher s")
    case True
    then have s': "s' = checkStatusMap cfg now s" using assms(2) WatcherTick by simp
    have "FlashLightSwitchOn \<notin> set (calls_since s (checkStatusMap cfg now s))"
      using checkStatusMap_calls_cases [of FlashLightSwitchOn s cfg now] by auto
    then show ?thesis using assms(1) s' by simp
  next
    case False
    then show ?thesis using assms(1,2) WatcherTick by auto
  qed
next
  case (FlashLightTick cfg now)
  then have z: "getLaboratoryNotificationTimeout cfg = 0" using assms(3) by simp
  have c: "calls_since s (operateFlashLight_body cfg now s) = []"
    by (rule calls_since_append) (simp add: operateFlashLight_body_calls z)
  have f: "flashlighton (operateFlashLight_body cfg now s) = flashlighton s"
    by (simp add: operateFlashLight_body_flashlighton z)
  show ?thesis
    using assms(1,2) FlashLightTick c f by (auto split: if_splits)
qed

text \<open>
  C8. With a laboratory timeout of 0 at every tick of the flash light thread, a connector
  whose flash light is off keeps it off along every run, whatever alarms are reported and
  whatever the clock says, and \<^verbatim>\<open>FlashLight::switchOn\<close> is not among the calls made.
\<close>

theorem lab_timeout_zero_never_on:
  assumes "\<not> flashlighton self" and "run self evs = Inr self'"
    and "\<forall>cfg now. FlashLightTick cfg now \<in> set evs \<longrightarrow> getLaboratoryNotificationTimeout cfg = 0"
  shows "\<not> flashlighton self' \<and> FlashLightSwitchOn \<notin> set (calls_since self self')"
  using assms
proof (induction evs arbitrary: self)
  case Nil
  then show ?case by simp
next
  case (Cons ev evs)
  from Cons.prems(2) obtain s1 where s1: "step self ev = Inr s1" and r: "run s1 evs = Inr self'"
    by (cases "step self ev") auto
  have h1: "\<forall>cfg now. ev = FlashLightTick cfg now \<longrightarrow> getLaboratoryNotificationTimeout cfg = 0"
    using Cons.prems(3) by auto
  have h2: "\<forall>cfg now. FlashLightTick cfg now \<in> set evs \<longrightarrow> getLaboratoryNotificationTimeout cfg = 0"
    using Cons.prems(3) by auto
  note 1 = step_flashlight_off [OF Cons.prems(1) s1 h1]
  note 2 = Cons.IH [OF conjunct1 [OF 1] r h2]
  show ?case using 1 2 by (simp add: calls_since_Cons [OF s1 r])
qed

theorem lab_timeout_zero_never_on_witness:
  "\<exists>s0 s'. newAlarmServerConnector startup_ok False False = Inr s0
     \<and> \<not> flashlighton s0
     \<and> run s0 [StatusChange ''pv1'' ''MAJOR'' ''ALARM'' 0,
               FlashLightTick \<lparr>getLaboratoryNotificationTimeout = 0, getDesktopNotificationTimeout = 5,
                               getEMailNotificationTimeout = 5\<rparr> 100,
               FlashLightTick \<lparr>getLaboratoryNotificationTimeout = 0, getDesktopNotificationTimeout = 5,
                               getEMailNotificationTimeout = 5\<rparr> 1000] = Inr s'
     \<and> getNumberOfAlarms s' = 1
     \<and> \<not> flashlighton s' \<and> FlashLightSwitchOn \<notin> set (calls_since s0 s')"
proof -
  define s0 where "s0 = \<lparr>desktopVersion = False, activateBeedo = False, statusmap = [],
     runwatcher = True, flashlighton = False, oldestAlarm = noAlarmActive, calls = []\<rparr>"
  define cfg where "cfg = \<lparr>getLaboratoryNotificationTimeout = 0, getDesktopNotificationTimeout = 5,
                               getEMailNotificationTimeout = 5\<rparr>"
  define evs where "evs = [StatusChange ''pv1'' ''MAJOR'' ''ALARM'' 0,
               FlashLightTick cfg 100, FlashLightTick cfg 1000]"
  have n: "newAlarmServerConnector startup_ok False False = Inr s0"
    by (simp add: newAlarmServerConnector_def newCMSClient_def startup_ok_def s0_def)
  have off: "\<not> flashlighton s0" by (simp add: s0_def)
  have r: "run s0 evs = Inr (s0\<lparr>statusmap := [(''pv1'', newAlarmStatusEntry ''pv1'' ''MAJOR'' ''ALARM'' 0)],
                               oldestAlarm := 0\<rparr>)"
    by (simp add: evs_def s0_def cfg_def notifyStatusChange_def checkSeverityString_examples
        newAlarmStatusEntry_def operateFlashLight_body_def switchFlashLightOn_def Let_def)
  have z: "\<forall>c now. FlashLightTick c now \<in> set evs \<longrightarrow> getLaboratoryNotificationTimeout c = 0"
    by (auto simp: evs_def cfg_def)
  note lab_timeout_zero_never_on [OF off r z]
  then show ?thesis using n off r
    by (simp add: evs_def cfg_def getNumberOfAlarms_def)
qed

subsection \<open>The e-mail notification\<close>

lemma update_fields [simp]:
  "pvname (update e st) = pvname e"
  "triggertime (update e st) = triggertime e"
  "desktopNotificationSent (update e st) = desktopNotificationSent e"
  "emailNotificationSent (update e st) = emailNotificationSent e"
  by (simp_all add: update_def)

lemma step_desktop_no_email:
  assumes "desktopVersion s" and "step s ev = Inr s'"
  shows "desktopVersion s'"
    and "SendEMailNotification b \<notin> set (calls_since s s')"
    and "list_all (\<lambda>(k, e). \<not> emailNotificationSent e) (statusmap s)
         \<Longrightarrow> list_all (\<lambda>(k, e). \<not> emailNotificationSent e) (statusmap s')"
proof -
  have "desktopVersion s' \<and> SendEMailNotification b \<notin> set (calls_since s s')
     \<and> (list_all (\<lambda>(k, e). \<not> emailNotificationSent e) (statusmap s)
         \<longrightarrow> list_all (\<lambda>(k, e). \<not> emailNotificationSent e) (statusmap s'))"
  proof (cases ev)
    case (StatusChange pv sev st now)
    then have n: "notifyStatusChange s (newAlarmStatusEntry pv sev st now) = Inr s'"
      using assms(2) by simp
    have c: "calls_since s s' = []"
      by (rule calls_since_append) (simp add: notifyStatusChange_fields(5) [OF n])
    have "\<not> emailNotificationSent e'"
      if all: "list_all (\<lambda>(k, e). \<not> emailNotificationSent e) (statusmap s)"
        and mem: "(k, e') \<in> set (statusmap s')" for k e'
      using notifyStatusChange_entries [OF n mem] all
      by (auto simp: list_all_iff newAlarmStatusEntry_def)
    then show ?thesis
      using assms(1) notifyStatusChange_fields(1) [OF n] c by (auto simp: list_all_iff)
  next
    case (WatcherTick cfg now)
    show ?thesis
    proof (cases "runwatcher s")
      case True
      then have s': "s' = checkStatusMap cfg now s" using assms(2) WatcherTick by simp
      have 1: "SendEMailNotification b \<notin> set (calls_since s (checkStatusMap cfg now s))"
        using checkStatusMap_calls_cases [of "SendEMailNotification b" s cfg now] assms(1) by auto
      obtain f where f: "statusmap (checkStatusMap cfg now s) = map (\<lambda>(k, e). (k, f e)) (statusmap s)"
        "\<forall>e. emailNotificationSent (f e) = emailNotificationSent e"
        using checkStatusMap_statusmap [of cfg now s] assms(1) by auto
      have 2: "list_all (\<lambda>(k, e). \<not> emailNotificationSent e) (statusmap s)
         \<longrightarrow> list_all (\<lambda>(k, e). \<not> emailNotificationSent e) (statusmap (checkStatusMap cfg now s))"
        by (auto simp: f list_all_iff)
      show ?thesis using 1 2 assms(1) s' by simp
    next
      case False
      then show ?thesis using assms WatcherTick by auto
    qed
  next
    case (FlashLightTick cfg now)
    then show ?thesis using assms by auto
  qed
  then show "desktopVersion s'"
    and "SendEMailNotification b \<notin> set (calls_since s s')"
    and "list_all (\<lambda>(k, e). \<not> emailNotificationSent e) (statusmap s)
         \<Longrightarrow> list_all (\<lambda>(k, e). \<not> emailNotificationSent e) (statusmap s')"
    by simp_all
qed

lemma run_desktop_no_email:
  assumes "desktopVersion s" and "run s evs = Inr s'"
  shows "desktopVersion s' \<and> SendEMailNotification b \<notin> set (calls_since s s')
     \<and> (list_all (\<lambda>(k, e). \<not> emailNotificationSent e) (statusmap s)
         \<longrightarrow> list_all (\<lambda>(k, e). \<not> emailNotificationSent e) (statusmap s'))"
  using assms
proof (induction evs arbitrary: s)
  case Nil
  then show ?case by simp
next
  case (Cons ev evs)
  from Cons.prems(2) obtain s1 where s1: "step s ev = Inr s1" and r: "run s1 evs = Inr s'"
    by (cases "step s ev") auto
  note st = step_desktop_no_email [OF Cons.prems(1) s1]
  note ih = Cons.IH [OF st(1) r]
  show ?case using st(2) [of b] st(3) ih by (simp add: calls_since_Cons [OF s1 r])
qed

text \<open>
  C10. In the desktop version \<^verbatim>\<open>prepareEMailNotification\<close> returns the connector as it
  found it: no flag is set and no thread is started for \<^verbatim>\<open>sendEMailNotification\<close>,
  whatever the map, the configured timeout and the clock. Along every run of a desktop
  connector no e-mail batch is handed over, and records that are not marked as e-mailed
  stay so.
\<close>

theorem desktop_version_no_email:
  assumes "desktopVersion self"
  shows "prepareEMailNotification cfg self = self
     \<and> checkStatusMap_email cfg now self = self
     \<and> (run self evs = Inr self' \<longrightarrow>
          SendEMailNotification b \<notin> set (calls_since self self')
          \<and> (list_all (\<lambda>(k, e). \<not> emailNotificationSent e) (statusmap self)
              \<longrightarrow> list_all (\<lambda>(k, e). \<not> emailNotificationSent e) (statusmap self')))"
proof -
  have 1: "prepareEMailNotification cfg self = self"
    using assms by (simp add: prepareEMailNotification_def)
  then have 2: "checkStatusMap_email cfg now self = self"
    by (simp add: checkStatusMap_email_def)
  show ?thesis using 1 2 run_desktop_no_email [OF assms] by blast
qed

theorem desktop_version_no_email_witness:
  "\<exists>s0 s'. newAlarmServerConnector startup_ok True False = Inr s0 \<and> desktopVersion s0
     \<and> run s0 [StatusChange ''pv1'' ''MAJOR'' ''ALARM'' 0,
               WatcherTick \<lparr>getLaboratoryNotificationTimeout = 5, getDesktopNotificationTimeout = 5,
                            getEMailNotificationTimeout = 5\<rparr> 100] = Inr s'
     \<and> map (\<lambda>(k, e). (k, desktopNotificationSent e, emailNotificationSent e)) (statusmap s')
         = [(''pv1'', True, False)]
     \<and> prepareEMailNotification \<lparr>getLaboratoryNotificationTimeout = 5,
           getDesktopNotificationTimeout = 5, getEMailNotificationTimeout = 5\<rparr> s' = s'
     \<and> (\<forall>b. SendEMailNotification b \<notin> set (calls_since s0 s'))"
proof -
  define s0 where "s0 = \<lparr>desktopVersion = True, activateBeedo = False, statusmap = [],
     runwatcher = True, flashlighton = False, oldestAlarm = noAlarmActive, calls = []\<rparr>"
  define cfg where "cfg = \<lparr>getLaboratoryNotificationTimeout = 5, getDesktopNotificationTimeout = 5,
                            getEMailNotificationTimeout = 5\<rparr>"
  define evs where "evs = [StatusChange ''pv1'' ''MAJOR'' ''ALARM'' 0, WatcherTick cfg 100]"
  have n: "newAlarmServerConnector startup_ok True False = Inr s0"
    by (simp add: newAlarmServerConnector_def newCMSClient_def startup_ok_def s0_def)
  have d: "desktopVersion s0" by (simp add: s0_def)
  have "\<exists>s'. run s0 evs = Inr s'
     \<and> map (\<lambda>(k, e). (k, desktopNotificationSent e, emailNotificationSent e)) (statusmap s')
         = [(''pv1'', True, False)]"
    by (simp add: evs_def s0_def cfg_def notifyStatusChange_def checkSeverityString_examples
        newAlarmStatusEntry_def checkStatusMap_def checkStatusMap_reset_def
        checkStatusMap_desktop_def checkStatusMap_email_def prepareDesktopNotification_def
        prepareEMailNotification_def setDesktopNotificationSent_def Let_def)
  then obtain s' where r: "run s0 evs = Inr s'"
    and m: "map (\<lambda>(k, e). (k, desktopNotificationSent e, emailNotificationSent e)) (statusmap s')
         = [(''pv1'', True, False)]"
    by (elim exE conjE)
  have d': "desktopVersion s'" using run_desktop_no_email [OF d r] by simp
  have 1: "\<forall>b. SendEMailNotification b \<notin> set (calls_since s0 s')"
    using desktop_version_no_email [OF d] r by blast
  have 2: "prepareEMailNotification cfg s' = s'"
    using desktop_version_no_email [OF d'] by blast
  show ?thesis
    by (rule exI [of _ s0], rule exI [of _ s'])
       (use n d r m 1 2 in \<open>simp add: evs_def cfg_def\<close>)
qed

lemma checkStatusMap_email_due:
  assumes "\<not> desktopVersion s" and "getEMailNotificationTimeout cfg \<noteq> 0"
    and "statusmap s \<noteq> []" and "oldestAlarm s + uint (getEMailNotificationTimeout cfg) \<le> now"
  shows "list_all (\<lambda>(k, e). emailNotificationSent e) (statusmap (checkStatusMap cfg now s))"
proof -
  let ?s1 = "checkStatusMap_reset s"
  let ?s2 = "checkStatusMap_desktop cfg now ?s1"
  have o: "oldestAlarm ?s2 = oldestAlarm s"
    using assms(3) by (simp add: checkStatusMap_reset_oldestAlarm)
  have m: "statusmap ?s2 \<noteq> []"
    using assms(3) by (simp add: checkStatusMap_desktop_statusmap)
  have "statusmap (checkStatusMap cfg now s) =
      map (\<lambda>(k, e). (k, e\<lparr>emailNotificationSent := True\<rparr>)) (statusmap ?s2)"
    using assms(1,2,4) o m by (simp add: checkStatusMap_def checkStatusMap_email_statusmap)
  then show ?thesis by (simp add: list_all_iff case_prod_unfold)
qed

text \<open>
  C7. In the server version with a non-zero e-mail timeout, \<^verbatim>\<open>prepareEMailNotification\<close>
  marks every record of the map as e-mailed, and the batch it hands to
  \<^verbatim>\<open>sendEMailNotification\<close> is made of the records that were not marked before, each
  with its flag set, in the order of the map; the trigger time of a record plays no part.
  No thread is started for an empty batch. A tick of the watcher at which the test on
  \<^verbatim>\<open>_oldestAlarm\<close> passes leaves every record marked.
\<close>

theorem prepareEMailNotification_batch:
  assumes "\<not> desktopVersion self" and "getEMailNotificationTimeout cfg \<noteq> 0"
  shows "statusmap (prepareEMailNotification cfg self) =
           map (\<lambda>(k, e). (k, e\<lparr>emailNotificationSent := True\<rparr>)) (statusmap self)
     \<and> calls_since self (prepareEMailNotification cfg self) =
          (if filter (\<lambda>e. \<not> emailNotificationSent e) (map snd (statusmap self)) = [] then []
           else [SendEMailNotification (map (\<lambda>e. e\<lparr>emailNotificationSent := True\<rparr>)
                   (filter (\<lambda>e. \<not> emailNotificationSent e) (map snd (statusmap self))))])
     \<and> (statusmap self \<noteq> [] \<and> oldestAlarm self + uint (getEMailNotificationTimeout cfg) \<le> now
          \<longrightarrow> list_all (\<lambda>(k, e). emailNotificationSent e) (statusmap (checkStatusMap cfg now self)))"
  using assms checkStatusMap_email_due [OF assms, of now]
  by (simp add: prepareEMailNotification_statusmap prepareEMailNotification_calls_since)

theorem prepareEMailNotification_batch_witness:
  "let old = \<lparr>pvname = ''pv1'', severity = ''MAJOR'', status = ''ALARM'', triggertime = 0,
               desktopNotificationSent = True, emailNotificationSent = False\<rparr>;
       sent = \<lparr>pvname = ''pv2'', severity = ''MINOR'', status = ''ALARM'', triggertime = 10,
               desktopNotificationSent = True, emailNotificationSent = True\<rparr>;
       fresh = \<lparr>pvname = ''pv3'', severity = ''MAJOR'', status = ''ALARM'', triggertime = 100,
               desktopNotificationSent = False, emailNotificationSent = False\<rparr>;
       s = \<lparr>desktopVersion = False, activateBeedo = False,
            statusmap = [(''pv1'', old), (''pv2'', sent), (''pv3'', fresh)],
            runwatcher = True, flashlighton = False, oldestAlarm = 0, calls = []\<rparr>;
       cfg = \<lparr>getLaboratoryNotificationTimeout = 0, getDesktopNotificationTimeout = 0,
              getEMailNotificationTimeout = 60\<rparr>
   in \<not> desktopVersion s \<and> getEMailNotificationTimeout cfg \<noteq> 0
      \<and> statusmap s \<noteq> [] \<and> oldestAlarm s + uint (getEMailNotificationTimeout cfg) \<le> 100
      \<and> calls_since s (prepareEMailNotification cfg s) =
           [SendEMailNotification [old\<lparr>emailNotificationSent := True\<rparr>,
                                   fresh\<lparr>emailNotificationSent := True\<rparr>]]
      \<and> map (\<lambda>(k, e). (k, emailNotificationSent e)) (statusmap (prepareEMailNotification cfg s))
           = [(''pv1'', True), (''pv2'', True), (''pv3'', True)]
      \<and> list_all (\<lambda>(k, e). emailNotificationSent e) (statusmap (checkStatusMap cfg 100 s))"
proof -
  define old where "old = \<lparr>pvname = ''pv1'', severity = ''MAJOR'', status = ''ALARM'', triggertime = 0,
               desktopNotificationSent = True, emailNotificationSent = False\<rparr>"
  define sent where "sent = \<lparr>pvname = ''pv2'', severity = ''MINOR'', status = ''ALARM'', triggertime = 10,
               desktopNotificationSent = True, emailNotificationSent = True\<rparr>"
  define fresh where "fresh = \<lparr>pvname = ''pv3'', severity = ''MAJOR'', status = ''ALARM'', triggertime = 100,
               desktopNotificationSent = False, emailNotificationSent = False\<rparr>"
  define s where "s = \<lparr>desktopVersion = False, activateBeedo = False,
            statusmap = [(''pv1'', old), (''pv2'', sent), (''pv3'', fresh)],
            runwatcher = True, flashlighton = False, oldestAlarm = 0, calls = []\<rparr>"
  define cfg where "cfg = \<lparr>getLaboratoryNotificationTimeout = 0, getDesktopNotificationTimeout = 0,
              getEMailNotificationTimeout = 60\<rparr>"
  have h1: "\<not> desktopVersion s" by (simp add: s_def)
  have h2: "getEMailNotificationTimeout cfg \<noteq> 0" by (simp add: cfg_def)
  have h3: "statusmap s \<noteq> [] \<and> oldestAlarm s + uint (getEMailNotificationTimeout cfg) \<le> 100"
    by (simp add: s_def cfg_def)
  note t = prepareEMailNotification_batch [OF h1 h2, of 100]
  have a: "calls_since s (prepareEMailNotification cfg s) =
           [SendEMailNotification [old\<lparr>emailNotificationSent := True\<rparr>,
                                   fresh\<lparr>emailNotificationSent := True\<rparr>]]"
    using t by (simp add: s_def old_def sent_def fresh_def)
  have b: "map (\<lambda>(k, e). (k, emailNotificationSent e)) (statusmap (prepareEMailNotification cfg s))
           = [(''pv1'', True), (''pv2'', True), (''pv3'', True)]"
    using t by (simp add: s_def)
  have c: "list_all (\<lambda>(k, e). emailNotificationSent e) (statusmap (checkStatusMap cfg 100 s))"
    using t h3 by blast
  show ?thesis
    using h1 h2 h3 a b c
    unfolding Let_def old_def [symmetric] sent_def [symmetric] fresh_def [symmetric]
      s_def [symmetric] cfg_def [symmetric]
    by blast
qed

subsection \<open>The oldest alarm\<close>

lemma notifyStatusChange_oldestAlarm:
  assumes "notifyStatusChange s st = Inr s'"
  shows "oldestAlarm s' =
     (if checkSeverityString (severity st) = Inr False \<and> oldestAlarm s = noAlarmActive
      then triggertime st else oldestAlarm s)"
  using assms
  by (auto simp: notifyStatusChange_def Let_def split: sum.splits bool.splits if_splits)

text \<open>
  C3. A step changes \<^verbatim>\<open>_oldestAlarm\<close> in two ways only: a report with a severity that is
  not cleared, arriving while \<^verbatim>\<open>_oldestAlarm\<close> is \<^verbatim>\<open>noAlarmActive\<close>, sets it to the
  trigger time of the reported entry; a tick of the watcher that finds the map empty sets
  it to \<^verbatim>\<open>noAlarmActive\<close>. A report that clears an alarm (a removal) leaves it as it is,
  also when the alarm removed is the oldest one and others remain; the flash light thread
  never writes it.
\<close>

theorem oldestAlarm_changes:
  assumes "step self ev = Inr self'"
  shows "(oldestAlarm self' \<noteq> oldestAlarm self \<longrightarrow>
            (\<exists>pv sev st now. ev = StatusChange pv sev st now
                \<and> checkSeverityString sev = Inr False
                \<and> oldestAlarm self = noAlarmActive \<and> oldestAlarm self' = now)
          \<or> (\<exists>cfg now. ev = WatcherTick cfg now \<and> statusmap self = []
                \<and> oldestAlarm self' = noAlarmActive))
     \<and> (\<forall>pv sev st now. ev = StatusChange pv sev st now \<and> checkSeverityString sev = Inr True
            \<longrightarrow> oldestAlarm self' = oldestAlarm self)"
proof (cases ev)
  case (StatusChange pv sev st now)
  then have n: "notifyStatusChange self (newAlarmStatusEntry pv sev st now) = Inr self'"
    using assms by simp
  show ?thesis
    using notifyStatusChange_oldestAlarm [OF n] StatusChange
    by (auto simp: newAlarmStatusEntry_def split: if_splits)
next
  case (WatcherTick cfg now)
  then show ?thesis
    using assms by (auto simp: checkStatusMap_oldestAlarm split: if_splits)
next
  case (FlashLightTick cfg now)
  then show ?thesis
    using assms by (auto split: if_splits)
qed

theorem oldestAlarm_changes_witness:
  "\<exists>s0 s s'. newAlarmServerConnector startup_ok False False = Inr s0
     \<and> run s0 [StatusChange ''pv1'' ''MAJOR'' ''ALARM'' 0,
               StatusChange ''pv2'' ''MAJOR'' ''ALARM'' 2] = Inr s
     \<and> oldestAlarm s = 0
     \<and> step s (StatusChange ''pv1'' ''OK'' ''NO_ALARM'' 5) = Inr s'
     \<and> map (\<lambda>(k, e). (k, triggertime e)) (statusmap s') = [(''pv2'', 2)]
     \<and> oldestAlarm s' = 0"
proof -
  define s0 where "s0 = \<lparr>desktopVersion = False, activateBeedo = False, statusmap = [],
     runwatcher = True, flashlighton = False, oldestAlarm = noAlarmActive, calls = []\<rparr>"
  define s where "s = s0\<lparr>statusmap := [(''pv1'', newAlarmStatusEntry ''pv1'' ''MAJOR'' ''ALARM'' 0),
                                      (''pv2'', newAlarmStatusEntry ''pv2'' ''MAJOR'' ''ALARM'' 2)],
                        oldestAlarm := 0\<rparr>"
  define s' where "s' = s\<lparr>statusmap := [(''pv2'', newAlarmStatusEntry ''pv2'' ''MAJOR'' ''ALARM'' 2)]\<rparr>"
  have n: "newAlarmServerConnector startup_ok False False = Inr s0"
    by (simp add: newAlarmServerConnector_def newCMSClient_def startup_ok_def s0_def)
  have r: "run s0 [StatusChange ''pv1'' ''MAJOR'' ''ALARM'' 0,
               StatusChange ''pv2'' ''MAJOR'' ''ALARM'' 2] = Inr s"
    by (simp add: s0_def s_def notifyStatusChange_def checkSeverityString_examples
        newAlarmStatusEntry_def Let_def noAlarmActive_def)
  have st: "step s (StatusChange ''pv1'' ''OK'' ''NO_ALARM'' 5) = Inr s'"
    by (simp add: s0_def s_def s'_def notifyStatusChange_def checkSeverityString_examples
        newAlarmStatusEntry_def Let_def)
  have "oldestAlarm s' = oldestAlarm s"
    using oldestAlarm_changes [OF st] by (simp add: checkSeverityString_examples)
  then have o: "oldestAlarm s' = 0" by (simp add: s_def)
  show ?thesis
    by (rule exI [of _ s0], rule exI [of _ s], rule exI [of _ s'])
       (use n r st o in \<open>simp add: s'_def s_def newAlarmStatusEntry_def\<close>)
qed

subsection \<open>The invariant of the map\<close>

lemma statusmap_inv_distinct: "statusmap_inv m \<Longrightarrow> distinct (map fst m)"
  by (simp add: statusmap_inv_def strict_sorted_keys_distinct)

lemma statusmap_inv_pvname: "statusmap_inv m \<Longrightarrow> (k, e) \<in> set m \<Longrightarrow> pvname e = k"
  by (auto simp: statusmap_inv_def list_all_iff)

lemma statusmap_inv_map_of: "statusmap_inv m \<Longrightarrow> (k, e) \<in> set m \<Longrightarrow> map_of m k = Some e"
  by (simp add: statusmap_inv_distinct)

lemma statusmap_inv_insert:
  "statusmap_inv m \<Longrightarrow> pvname v = k \<Longrightarrow> statusmap_inv (map_insert k v m)"
  using set_map_insert [of k v m]
  by (auto simp: statusmap_inv_def sorted_map_insert list_all_iff)

lemma statusmap_inv_erase: "statusmap_inv m \<Longrightarrow> statusmap_inv (map_erase k m)"
  using keys_map_erase_subset [of k m]
  by (auto simp: statusmap_inv_def sorted_map_erase list_all_iff)

lemma statusmap_inv_modify:
  assumes "statusmap_inv m" and "\<And>e. pvname (f e) = pvname e"
  shows "statusmap_inv (map_modify k f m)"
proof -
  have "pvname e' = k'" if "(k', e') \<in> set (map_modify k f m)" for k' e'
    using set_map_modify [OF that] assms by (auto simp: statusmap_inv_def list_all_iff)
  then show ?thesis
    using assms(1) by (auto simp: statusmap_inv_def keys_map_modify list_all_iff)
qed

lemma statusmap_inv_map:
  assumes "statusmap_inv m" and "\<And>e. pvname (f e) = pvname e"
  shows "statusmap_inv (map (\<lambda>(k, e). (k, f e)) m)"
proof -
  have "(fst \<circ> (\<lambda>(k, e). (k, f e))) = (fst :: string \<times> AlarmStatusEntry \<Rightarrow> string)"
    by auto
  then show ?thesis
    using assms by (auto simp: statusmap_inv_def list_all_iff)
qed

lemma step_statusmap_inv:
  assumes "statusmap_inv (statusmap s)" and "step s ev = Inr s'"
  shows "statusmap_inv (statusmap s')"
proof (cases ev)
  case (StatusChange pv sev st now)
  then have n: "notifyStatusChange s (newAlarmStatusEntry pv sev st now) = Inr s'"
    using assms(2) by simp
  show ?thesis
    unfolding notifyStatusChange_statusmap [OF n]
    using assms(1)
    by (simp add: statusmap_inv_insert statusmap_inv_erase statusmap_inv_modify)
next
  case (WatcherTick cfg now)
  obtain f where "statusmap (checkStatusMap cfg now s) = map (\<lambda>(k, e). (k, f e)) (statusmap s)"
    and "\<And>e. pvname (f e) = pvname e"
    using checkStatusMap_statusmap [of cfg now s] by auto
  then have "statusmap_inv (statusmap (checkStatusMap cfg now s))"
    using statusmap_inv_map [OF assms(1)] by simp
  then show ?thesis using assms WatcherTick by (auto split: if_splits)
next
  case (FlashLightTick cfg now)
  then show ?thesis using assms by (auto split: if_splits)
qed

lemma run_statusmap_inv:
  "statusmap_inv (statusmap s) \<Longrightarrow> run s evs = Inr s' \<Longrightarrow> statusmap_inv (statusmap s')"
proof (induction evs arbitrary: s)
  case Nil
  then show ?case by simp
next
  case (Cons ev evs)
  from Cons.prems(2) obtain s1 where s1: "step s ev = Inr s1" and r: "run s1 evs = Inr s'"
    by (cases "step s ev") auto
  show ?case by (rule Cons.IH [OF step_statusmap_inv [OF Cons.prems(1) s1] r])
qed

text \<open>Every connector that a run reaches from a new one has a map that is in order.\<close>

lemma reachable_statusmap_inv:
  assumes "newAlarmServerConnector env desktop beedo = Inr s0" and "run s0 evs = Inr s"
  shows "statusmap_inv (statusmap s)"
proof -
  have "statusmap s0 = []"
    using assms(1) by (auto simp: newAlarmServerConnector_def split: if_splits sum.splits)
  then have "statusmap_inv (statusmap s0)" by (simp add: statusmap_inv_def)
  then show ?thesis using assms(2) by (rule run_statusmap_inv)
qed

subsection \<open>The record of one PV across a step\<close>

lemma notifyStatusChange_map_of:
  assumes "statusmap_inv (statusmap s)" and "notifyStatusChange s st = Inr s'"
  shows "map_of (statusmap s') k =
     (if k \<noteq> pvname st then map_of (statusmap s) k
      else if checkSeverityString (severity st) = Inr True then None
      else (case map_of (statusmap s) k of None \<Rightarrow> Some st | Some e \<Rightarrow> Some (update e st)))"
  unfolding notifyStatusChange_statusmap [OF assms(2)]
  using statusmap_inv_distinct [OF assms(1)]
  by (auto simp: map_of_map_insert map_of_map_modify map_of_map_erase_other
      map_of_map_erase_same split: option.splits)

lemma checkStatusMap_map_of:
  "\<exists>f. map_of (statusmap (checkStatusMap cfg now s)) = map_option f \<circ> map_of (statusmap s)
     \<and> (\<forall>e. pvname (f e) = pvname e \<and> severity (f e) = severity e \<and> status (f e) = status e
            \<and> triggertime (f e) = triggertime e
            \<and> (desktopNotificationSent e \<longrightarrow> desktopNotificationSent (f e))
            \<and> (emailNotificationSent e \<longrightarrow> emailNotificationSent (f e))
            \<and> (desktopVersion s \<longrightarrow> emailNotificationSent (f e) = emailNotificationSent e))"
proof -
  obtain f where f: "statusmap (checkStatusMap cfg now s) = map (\<lambda>(k, e). (k, f e)) (statusmap s)"
    and P: "\<forall>e. pvname (f e) = pvname e \<and> severity (f e) = severity e \<and> status (f e) = status e
            \<and> triggertime (f e) = triggertime e
            \<and> (desktopNotificationSent e \<longrightarrow> desktopNotificationSent (f e))
            \<and> (emailNotificationSent e \<longrightarrow> emailNotificationSent (f e))
            \<and> (desktopVersion s \<longrightarrow> emailNotificationSent (f e) = emailNotificationSent e)"
    using checkStatusMap_statusmap [of cfg now s] by (elim exE conjE)
  have "map_of (statusmap (checkStatusMap cfg now s)) = map_option f \<circ> map_of (statusmap s)"
    unfolding f by (rule map_of_map)
  then show ?thesis using P by blast
qed

text \<open>
  C9. \<^verbatim>\<open>update\<close> touches the severity and the status of a record and nothing else. A
  record that is in the map before and after a step keeps its PV name and its trigger
  time, and a flag that was true is still true: no step resets one. When the step is a
  report, both flags are as they were, and the severity and the status are either as they
  were or those of the report.
\<close>

theorem update_frame:
  assumes "statusmap_inv (statusmap self)"
    and "map_of (statusmap self) pv = Some e"
    and "step self ev = Inr self'"
    and "map_of (statusmap self') pv = Some e'"
  shows "pvname (update e new) = pvname e \<and> triggertime (update e new) = triggertime e
     \<and> desktopNotificationSent (update e new) = desktopNotificationSent e
     \<and> emailNotificationSent (update e new) = emailNotificationSent e
     \<and> pvname e' = pvname e \<and> triggertime e' = triggertime e
     \<and> (desktopNotificationSent e \<longrightarrow> desktopNotificationSent e')
     \<and> (emailNotificationSent e \<longrightarrow> emailNotificationSent e')
     \<and> (\<forall>p sev st now. ev = StatusChange p sev st now \<longrightarrow>
            desktopNotificationSent e' = desktopNotificationSent e
            \<and> emailNotificationSent e' = emailNotificationSent e
            \<and> (e' = e \<or> e' = e\<lparr>severity := sev, status := st\<rparr>))"
proof (cases ev)
  case (StatusChange p sev st now)
  then have n: "notifyStatusChange self (newAlarmStatusEntry p sev st now) = Inr self'"
    using assms(3) by simp
  have "e' = e \<or> e' = update e (newAlarmStatusEntry p sev st now)"
    using notifyStatusChange_map_of [OF assms(1) n, of pv] assms(2,4)
    by (auto split: if_splits)
  then have "e' = e \<or> e' = e\<lparr>severity := sev, status := st\<rparr>"
    by (auto simp: update_def newAlarmStatusEntry_def split: if_splits)
  then show ?thesis using StatusChange by auto
next
  case (WatcherTick cfg now)
  show ?thesis
  proof (cases "runwatcher self")
    case True
    then have s': "self' = checkStatusMap cfg now self" using assms(3) WatcherTick by simp
    obtain f where f: "map_of (statusmap self') = map_option f \<circ> map_of (statusmap self)"
      and P: "\<forall>e. pvname (f e) = pvname e \<and> triggertime (f e) = triggertime e
            \<and> (desktopNotificationSent e \<longrightarrow> desktopNotificationSent (f e))
            \<and> (emailNotificationSent e \<longrightarrow> emailNotificationSent (f e))"
      using checkStatusMap_map_of [of cfg now self] unfolding s' by blast
    have "e' = f e" using f assms(2,4) by simp
    then show ?thesis using P WatcherTick by simp
  next
    case False
    then show ?thesis using assms WatcherTick by auto
  qed
next
  case (FlashLightTick cfg now)
  then have "statusmap self' = statusmap self" using assms(3) by (auto split: if_splits)
  then show ?thesis using assms(2,4) FlashLightTick by simp
qed

theorem update_frame_witness:
  "\<exists>s s' e e'. statusmap_inv (statusmap s) \<and> map_of (statusmap s) ''pv1'' = Some e
     \<and> step s (StatusChange ''pv1'' ''MINOR'' ''LOLO'' 50) = Inr s'
     \<and> map_of (statusmap s') ''pv1'' = Some e'
     \<and> e = \<lparr>pvname = ''pv1'', severity = ''MAJOR'', status = ''HIHI'', triggertime = 7,
               desktopNotificationSent = True, emailNotificationSent = True\<rparr>
     \<and> e' = \<lparr>pvname = ''pv1'', severity = ''MINOR'', status = ''LOLO'', triggertime = 7,
               desktopNotificationSent = True, emailNotificationSent = True\<rparr>"
proof -
  define e where "e = \<lparr>pvname = ''pv1'', severity = ''MAJOR'', status = ''HIHI'', triggertime = 7,
               desktopNotificationSent = True, emailNotificationSent = True\<rparr>"
  define s where "s = \<lparr>desktopVersion = False, activateBeedo = False, statusmap = [(''pv1'', e)],
     runwatcher = True, flashlighton = False, oldestAlarm = 7, calls = []\<rparr>"
  define s' where "s' = s\<lparr>statusmap := [(''pv1'', e\<lparr>severity := ''MINOR'', status := ''LOLO''\<rparr>)]\<rparr>"
  have i: "statusmap_inv (statusmap s)" by (simp add: s_def e_def statusmap_inv_def)
  have m: "map_of (statusmap s) ''pv1'' = Some e" by (simp add: s_def)
  have st: "step s (StatusChange ''pv1'' ''MINOR'' ''LOLO'' 50) = Inr s'"
    by (simp add: s_def s'_def e_def notifyStatusChange_def checkSeverityString_examples
        newAlarmStatusEntry_def update_def Let_def noAlarmActive_def)
  have m': "map_of (statusmap s') ''pv1'' = Some (e\<lparr>severity := ''MINOR'', status := ''LOLO''\<rparr>)"
    by (simp add: s'_def)
  note t = update_frame [OF i m st m']
  have "e\<lparr>severity := ''MINOR'', status := ''LOLO''\<rparr> =
      \<lparr>pvname = ''pv1'', severity = ''MINOR'', status = ''LOLO'', triggertime = 7,
               desktopNotificationSent = True, emailNotificationSent = True\<rparr>"
    using t by (simp add: e_def)
  then show ?thesis
    using i m st m' e_def by blast
qed

subsection \<open>The desktop notification is sent once for a record\<close>

lemma step_desktop_flag:
  assumes "statusmap_inv (statusmap s)" and "map_of (statusmap s) pv = Some e"
    and "desktopNotificationSent e" and "step s ev = Inr s'"
    and "\<forall>sev st now. ev = StatusChange pv sev st now \<longrightarrow> checkSeverityString sev \<noteq> Inr True"
  shows "(\<exists>e'. map_of (statusmap s') pv = Some e' \<and> desktopNotificationSent e')
     \<and> (\<forall>b. SendDesktopNotification b \<in> set (calls_since s s') \<longrightarrow> pv \<notin> pvname ` set b)"
proof (cases ev)
  case (StatusChange p sev st now)
  then have n: "notifyStatusChange s (newAlarmStatusEntry p sev st now) = Inr s'"
    using assms(4) by simp
  have c: "calls_since s s' = []"
    by (rule calls_since_append) (simp add: notifyStatusChange_fields(5) [OF n])
  have "p = pv \<longrightarrow> checkSeverityString sev \<noteq> Inr True"
    using assms(5) StatusChange by simp
  then have "\<exists>e'. map_of (statusmap s') pv = Some e' \<and> desktopNotificationSent e'"
    using notifyStatusChange_map_of [OF assms(1) n, of pv] assms(2,3)
    by (auto simp: newAlarmStatusEntry_def)
  then show ?thesis using c by simp
next
  case (WatcherTick cfg now)
  show ?thesis
  proof (cases "runwatcher s")
    case True
    then have s': "s' = checkStatusMap cfg now s" using assms(4) WatcherTick by simp
    obtain f where f: "map_of (statusmap s') = map_option f \<circ> map_of (statusmap s)"
      and P: "\<forall>e. desktopNotificationSent e \<longrightarrow> desktopNotificationSent (f e)"
      using checkStatusMap_map_of [of cfg now s] unfolding s' by blast
    have 1: "\<exists>e'. map_of (statusmap s') pv = Some e' \<and> desktopNotificationSent e'"
      using f P assms(2,3) by simp
    have 2: "pv \<notin> pvname ` set b" if b: "SendDesktopNotification b \<in> set (calls_since s s')" for b
    proof
      assume "pv \<in> pvname ` set b"
      moreover have "b = map (\<lambda>e. e\<lparr>desktopNotificationSent := True\<rparr>)
                  (filter (\<lambda>e. triggertime e + uint (getDesktopNotificationTimeout cfg) \<le> now
                        \<and> \<not> desktopNotificationSent e) (map snd (statusmap s)))"
        using checkStatusMap_calls_cases [of "SendDesktopNotification b" s cfg now] b s' by auto
      ultimately obtain k e0 where e0: "(k, e0) \<in> set (statusmap s)" "pvname e0 = pv"
        "\<not> desktopNotificationSent e0"
        by auto
      have "k = pv" using statusmap_inv_pvname [OF assms(1) e0(1)] e0(2) by simp
      then have "map_of (statusmap s) pv = Some e0"
        using statusmap_inv_map_of [OF assms(1) e0(1)] by simp
      then show False using assms(2,3) e0(3) by simp
    qed
    show ?thesis using 1 2 by blast
  next
    case False
    then show ?thesis using assms WatcherTick by auto
  qed
next
  case (FlashLightTick cfg now)
  have c: "calls s' = calls s @ calls_since s s'" by (rule step_calls [OF assms(4)])
  have "\<forall>c \<in> set (calls_since s s'). c = FlashLightSwitchOn \<or> c = FlashLightSwitchOff"
  proof (cases "desktopVersion s \<or> \<not> runwatcher s")
    case True
    then have "s' = s" using assms(4) FlashLightTick by auto
    then show ?thesis by simp
  next
    case False
    then have "s' = operateFlashLight_body cfg now s" using assms(4) FlashLightTick by auto
    then have "calls_since s s' =
      (if getLaboratoryNotificationTimeout cfg \<noteq> 0 \<and> \<not> flashlighton s \<and> statusmap s \<noteq> []
           \<and> oldestAlarm s + uint (getLaboratoryNotificationTimeout cfg) \<le> now
        then [FlashLightSwitchOn] else [])
     @ (if getLaboratoryNotificationTimeout cfg \<noteq> 0 \<and> flashlighton s \<and> statusmap s = []
        then [FlashLightSwitchOff] else [])"
      using calls_since_append [OF operateFlashLight_body_calls [of cfg now s]] by simp
    then show ?thesis by (auto split: if_splits)
  qed
  moreover have "statusmap s' = statusmap s"
    using assms(4) FlashLightTick by (auto split: if_splits)
  ultimately show ?thesis using assms(2,3) by auto
qed

text \<open>
  The same for any step, a report that clears the PV included: a record of the PV that
  is in the map after the step has its flag set.
\<close>

lemma step_flagged_never_batched:
  assumes "statusmap_inv (statusmap s)" and "map_of (statusmap s) pv = Some e"
    and "desktopNotificationSent e" and "step s ev = Inr s'"
  shows "(\<forall>e'. map_of (statusmap s') pv = Some e' \<longrightarrow> desktopNotificationSent e')
     \<and> (\<forall>b. SendDesktopNotification b \<in> set (calls_since s s') \<longrightarrow> pv \<notin> pvname ` set b)"
proof (cases "\<exists>sev st now. ev = StatusChange pv sev st now \<and> checkSeverityString sev = Inr True")
  case True
  then obtain sev st now where ev: "ev = StatusChange pv sev st now"
    and cl: "checkSeverityString sev = Inr True"
    by blast
  have n: "notifyStatusChange s (newAlarmStatusEntry pv sev st now) = Inr s'"
    using assms(4) ev by simp
  have c: "calls_since s s' = []"
    by (rule calls_since_append) (simp add: notifyStatusChange_fields(5) [OF n])
  have "map_of (statusmap s') pv = None"
    using notifyStatusChange_map_of [OF assms(1) n, of pv] cl
    by (simp add: newAlarmStatusEntry_def)
  then show ?thesis using c by simp
next
  case False
  then have "\<forall>sev st now. ev = StatusChange pv sev st now \<longrightarrow> checkSeverityString sev \<noteq> Inr True"
    by blast
  from step_desktop_flag [OF assms this] show ?thesis by auto
qed

text \<open>
  C6. Setting the flag twice is setting it once, and the flag is then true. When the
  record of a PV has its flag set, no step puts the PV into a desktop batch, and a record
  of the PV that is in the map after the step has its flag set. So for the life of the
  record, which ends with a report that clears the PV, the flag stays set and no desktop
  batch prepared on the way contains the PV.
\<close>

theorem desktop_sent_once:
  assumes "statusmap_inv (statusmap self)" and "map_of (statusmap self) pv = Some e"
    and "desktopNotificationSent e"
  shows "setDesktopNotificationSent (setDesktopNotificationSent x True) True
           = setDesktopNotificationSent x True
     \<and> desktopNotificationSent (setDesktopNotificationSent (setDesktopNotificationSent x True) True)
     \<and> (step self ev = Inr s1 \<longrightarrow>
          (\<forall>b. SendDesktopNotification b \<in> set (calls_since self s1) \<longrightarrow> pv \<notin> pvname ` set b)
          \<and> (\<forall>e1. map_of (statusmap s1) pv = Some e1 \<longrightarrow> desktopNotificationSent e1))
     \<and> (run self evs = Inr self'
          \<and> (\<forall>sev st now. StatusChange pv sev st now \<in> set evs
                \<longrightarrow> checkSeverityString sev \<noteq> Inr True) \<longrightarrow>
          (\<exists>e'. map_of (statusmap self') pv = Some e' \<and> desktopNotificationSent e')
          \<and> (\<forall>b. SendDesktopNotification b \<in> set (calls_since self self')
                \<longrightarrow> pv \<notin> pvname ` set b))"
proof -
  have one: "(\<forall>b. SendDesktopNotification b \<in> set (calls_since self s1) \<longrightarrow> pv \<notin> pvname ` set b)
          \<and> (\<forall>e1. map_of (statusmap s1) pv = Some e1 \<longrightarrow> desktopNotificationSent e1)"
    if "step self ev = Inr s1"
    using step_flagged_never_batched [OF assms that] by blast
  have many: "(\<exists>e'. map_of (statusmap self') pv = Some e' \<and> desktopNotificationSent e')
     \<and> (\<forall>b. SendDesktopNotification b \<in> set (calls_since self self') \<longrightarrow> pv \<notin> pvname ` set b)"
    if "run self evs = Inr self'"
      and "\<forall>sev st now. StatusChange pv sev st now \<in> set evs \<longrightarrow> checkSeverityString sev \<noteq> Inr True"
    using assms that
  proof (induction evs arbitrary: self e)
    case Nil
    then show ?case by simp
  next
    case (Cons ev evs)
    from Cons.prems(4) obtain s1 where s1: "step self ev = Inr s1" and r: "run s1 evs = Inr self'"
      by (cases "step self ev") auto
    have h1: "\<forall>sev st now. ev = StatusChange pv sev st now \<longrightarrow> checkSeverityString sev \<noteq> Inr True"
      using Cons.prems(5) by auto
    have h2: "\<forall>sev st now. StatusChange pv sev st now \<in> set evs \<longrightarrow> checkSeverityString sev \<noteq> Inr True"
      using Cons.prems(5) by auto
    note st = step_desktop_flag [OF Cons.prems(1,2,3) s1 h1]
    then obtain e1 where e1: "map_of (statusmap s1) pv = Some e1" "desktopNotificationSent e1"
      by blast
    note ih = Cons.IH [OF step_statusmap_inv [OF Cons.prems(1) s1] e1 r h2]
    show ?case using st ih by (auto simp: calls_since_Cons [OF s1 r])
  qed
  have idem: "setDesktopNotificationSent (setDesktopNotificationSent x True) True
           = setDesktopNotificationSent x True
     \<and> desktopNotificationSent (setDesktopNotificationSent (setDesktopNotificationSent x True) True)"
    by (simp add: setDesktopNotificationSent_def)
  show ?thesis using idem one many by blast
qed

theorem desktop_sent_once_witness:
  "\<exists>s s1 s' e. statusmap_inv (statusmap s) \<and> map_of (statusmap s) ''pv1'' = Some e
     \<and> desktopNotificationSent e
     \<and> step s (WatcherTick \<lparr>getLaboratoryNotificationTimeout = 0, getDesktopNotificationTimeout = 5,
                             getEMailNotificationTimeout = 0\<rparr> 11) = Inr s1
     \<and> (\<forall>b. SendDesktopNotification b \<in> set (calls_since s s1) \<longrightarrow> ''pv1'' \<notin> pvname ` set b)
     \<and> (\<forall>e1. map_of (statusmap s1) ''pv1'' = Some e1 \<longrightarrow> desktopNotificationSent e1)
     \<and> run s [WatcherTick \<lparr>getLaboratoryNotificationTimeout = 0, getDesktopNotificationTimeout = 5,
                             getEMailNotificationTimeout = 0\<rparr> 11,
              StatusChange ''pv1'' ''MINOR'' ''LOLO'' 12,
              WatcherTick \<lparr>getLaboratoryNotificationTimeout = 0, getDesktopNotificationTimeout = 5,
                             getEMailNotificationTimeout = 0\<rparr> 13] = Inr s'
     \<and> (\<exists>e'. map_of (statusmap s') ''pv1'' = Some e' \<and> desktopNotificationSent e'
            \<and> severity e' = ''MINOR'')
     \<and> (\<forall>b. SendDesktopNotification b \<in> set (calls_since s s') \<longrightarrow> ''pv1'' \<notin> pvname ` set b)"
proof -
  define cfg where "cfg = \<lparr>getLaboratoryNotificationTimeout = 0, getDesktopNotificationTimeout = 5,
                             getEMailNotificationTimeout = 0\<rparr>"
  define e where "e = \<lparr>pvname = ''pv1'', severity = ''MAJOR'', status = ''ALARM'', triggertime = 0,
               desktopNotificationSent = True, emailNotificationSent = False\<rparr>"
  define s where "s = \<lparr>desktopVersion = False, activateBeedo = False, statusmap = [(''pv1'', e)],
     runwatcher = True, flashlighton = False, oldestAlarm = 0, calls = []\<rparr>"
  define evs where "evs = [WatcherTick cfg 11, StatusChange ''pv1'' ''MINOR'' ''LOLO'' 12,
              WatcherTick cfg 13]"
  define s' where "s' = s\<lparr>statusmap := [(''pv1'', e\<lparr>severity := ''MINOR'', status := ''LOLO''\<rparr>)]\<rparr>"
  have i: "statusmap_inv (statusmap s)" by (simp add: s_def e_def statusmap_inv_def)
  have m: "map_of (statusmap s) ''pv1'' = Some e" by (simp add: s_def)
  have d: "desktopNotificationSent e" by (simp add: e_def)
  have s1: "step s (WatcherTick cfg 11) = Inr s"
    by (simp add: s_def e_def cfg_def eval_defs)
  have r: "run s evs = Inr s'"
    by (simp add: evs_def s_def s'_def e_def cfg_def eval_defs)
  have h: "\<forall>sev st now. StatusChange ''pv1'' sev st now \<in> set evs \<longrightarrow> checkSeverityString sev \<noteq> Inr True"
    by (simp add: evs_def checkSeverityString_examples)
  note t = desktop_sent_once [OF i m d, of _ "WatcherTick cfg 11" s evs s']
  have one: "(\<forall>b. SendDesktopNotification b \<in> set (calls_since s s) \<longrightarrow> ''pv1'' \<notin> pvname ` set b)
     \<and> (\<forall>e1. map_of (statusmap s) ''pv1'' = Some e1 \<longrightarrow> desktopNotificationSent e1)"
    using t s1 by blast
  have sev: "\<exists>e'. map_of (statusmap s') ''pv1'' = Some e' \<and> desktopNotificationSent e'
            \<and> severity e' = ''MINOR''"
    using t r h by (simp add: s'_def)
  have nb: "\<forall>b. SendDesktopNotification b \<in> set (calls_since s s') \<longrightarrow> ''pv1'' \<notin> pvname ` set b"
    using t r h by blast
  show ?thesis
    by (rule exI [of _ s], rule exI [of _ s], rule exI [of _ s'], rule exI [of _ e])
       (use i m d s1 r one sev nb in \<open>unfold evs_def cfg_def, blast\<close>)
qed

text \<open>
  The flag is the record's. A report that clears the PV removes the record, flag and
  all, and the next alarm of the same PV makes a new record, whose notification is due
  again: below, the first tick sends the batch for \<^verbatim>\<open>pv1\<close> and sets the flag, and
  after \<^verbatim>\<open>pv1\<close> has been cleared and has raised an alarm again, the second tick sends
  the batch of the new record.
\<close>

lemma desktop_sent_again_new_record:
  "map_sum id statusmap
     (run \<lparr>desktopVersion = True, activateBeedo = False, statusmap = [], runwatcher = True,
            flashlighton = False, oldestAlarm = noAlarmActive, calls = []\<rparr>
        [StatusChange ''pv1'' ''MAJOR'' ''ALARM'' 0,
         WatcherTick \<lparr>getLaboratoryNotificationTimeout = 0, getDesktopNotificationTimeout = 5,
                      getEMailNotificationTimeout = 0\<rparr> 10])
     = Inr [(''pv1'', \<lparr>pvname = ''pv1'', severity = ''MAJOR'', status = ''ALARM'', triggertime = 0,
                      desktopNotificationSent = True, emailNotificationSent = False\<rparr>)]
   \<and> map_sum id calls
     (run \<lparr>desktopVersion = True, activateBeedo = False, statusmap = [], runwatcher = True,
            flashlighton = False, oldestAlarm = noAlarmActive, calls = []\<rparr>
        [StatusChange ''pv1'' ''MAJOR'' ''ALARM'' 0,
         WatcherTick \<lparr>getLaboratoryNotificationTimeout = 0, getDesktopNotificationTimeout = 5,
                      getEMailNotificationTimeout = 0\<rparr> 10,
         StatusChange ''pv1'' ''OK'' ''NO_ALARM'' 11,
         StatusChange ''pv1'' ''MAJOR'' ''ALARM'' 20,
         WatcherTick \<lparr>getLaboratoryNotificationTimeout = 0, getDesktopNotificationTimeout = 5,
                      getEMailNotificationTimeout = 0\<rparr> 30])
     = Inr [SendDesktopNotification
              [\<lparr>pvname = ''pv1'', severity = ''MAJOR'', status = ''ALARM'', triggertime = 0,
                desktopNotificationSent = True, emailNotificationSent = False\<rparr>],
            SendDesktopNotification
              [\<lparr>pvname = ''pv1'', severity = ''MAJOR'', status = ''ALARM'', triggertime = 20,
                desktopNotificationSent = True, emailNotificationSent = False\<rparr>]]"
  by (simp add: eval_defs)

subsection \<open>The update of a record\<close>

text \<open>
  What a report that does not clear does to the record of a PV that is in the map: the
  severity and the status are overwritten when the clock has moved on since the record
  was made, and not otherwise; \<^verbatim>\<open>time_t\<close> counts seconds.
\<close>

lemma notifyStatusChange_update_rule:
  assumes "statusmap_inv (statusmap self)" and "map_of (statusmap self) pv = Some e"
    and "checkSeverityString sev = Inr False"
  shows "\<exists>self'. step self (StatusChange pv sev st now) = Inr self'
     \<and> map_of (statusmap self') pv =
         Some (if triggertime e < now then e\<lparr>severity := sev, status := st\<rparr> else e)"
proof -
  obtain self' where n: "notifyStatusChange self (newAlarmStatusEntry pv sev st now) = Inr self'"
    using assms(3)
    by (cases "notifyStatusChange self (newAlarmStatusEntry pv sev st now)")
       (auto dest: notifyStatusChange_error simp: newAlarmStatusEntry_def)
  have "map_of (statusmap self') pv = Some (update e (newAlarmStatusEntry pv sev st now))"
    using notifyStatusChange_map_of [OF assms(1) n, of pv] assms(2,3)
    by (simp add: newAlarmStatusEntry_def)
  then show ?thesis using n by (simp add: update_def newAlarmStatusEntry_def)
qed

text \<open>
  C5. The claim has the record overwritten when the report is not older than the record.
  \<^verbatim>\<open>update\<close> compares with \<^verbatim>\<open><\<close>: a report that arrives in the second in which the
  record was made is dropped, and the record keeps the severity and the status of the
  first report. One second later the same report is applied.
\<close>

theorem update_same_second_dropped:
  "map_sum id statusmap
     (run \<lparr>desktopVersion = False, activateBeedo = False, statusmap = [], runwatcher = True,
            flashlighton = False, oldestAlarm = noAlarmActive, calls = []\<rparr>
        [StatusChange ''pv1'' ''MINOR'' ''HIGH'' 100, StatusChange ''pv1'' ''MAJOR'' ''HIHI'' 100])
     = Inr [(''pv1'', \<lparr>pvname = ''pv1'', severity = ''MINOR'', status = ''HIGH'', triggertime = 100,
                      desktopNotificationSent = False, emailNotificationSent = False\<rparr>)]
   \<and> map_sum id statusmap
     (run \<lparr>desktopVersion = False, activateBeedo = False, statusmap = [], runwatcher = True,
            flashlighton = False, oldestAlarm = noAlarmActive, calls = []\<rparr>
        [StatusChange ''pv1'' ''MINOR'' ''HIGH'' 100, StatusChange ''pv1'' ''MAJOR'' ''HIHI'' 101])
     = Inr [(''pv1'', \<lparr>pvname = ''pv1'', severity = ''MAJOR'', status = ''HIHI'', triggertime = 100,
                      desktopNotificationSent = False, emailNotificationSent = False\<rparr>)]"
  by (simp add: eval_defs)

subsection \<open>The number of alarms\<close>

text \<open>
  C2. The claim counts, after any sequence of reports, the PVs whose last report was not
  cleared. A report with a severity shorter than four characters other than \<^verbatim>\<open>OK\<close> is not
  cleared for the specification; in the code \<^verbatim>\<open>notifyStatusChange\<close> throws
  \<^verbatim>\<open>std::out_of_range\<close> on it before it touches the map, so the PV is not counted. The
  two reports of the claim's example give 1 and then 0.
\<close>

theorem count_short_severity:
  "notifyStatusChange
      \<lparr>desktopVersion = False, activateBeedo = False, statusmap = [], runwatcher = True,
       flashlighton = False, oldestAlarm = noAlarmActive, calls = []\<rparr>
      (newAlarmStatusEntry ''pv1'' '''' ''ALARM'' 0) = Inl OutOfRange
   \<and> \<not> IsCleared_spec ''''
   \<and> getNumberOfAlarms
        \<lparr>desktopVersion = False, activateBeedo = False, statusmap = [], runwatcher = True,
         flashlighton = False, oldestAlarm = noAlarmActive, calls = []\<rparr> = 0
   \<and> map_sum id getNumberOfAlarms
       (run \<lparr>desktopVersion = False, activateBeedo = False, statusmap = [], runwatcher = True,
              flashlighton = False, oldestAlarm = noAlarmActive, calls = []\<rparr>
          [StatusChange ''pv1'' ''MAJOR'' ''ALARM'' 0]) = Inr 1
   \<and> map_sum id getNumberOfAlarms
       (run \<lparr>desktopVersion = False, activateBeedo = False, statusmap = [], runwatcher = True,
              flashlighton = False, oldestAlarm = noAlarmActive, calls = []\<rparr>
          [StatusChange ''pv1'' ''MAJOR'' ''ALARM'' 0, StatusChange ''pv1'' ''MAJOR_ACK'' ''ALARM'' 1])
       = Inr 0"
  using checkSeverityString_short [of "''''"]
  by (simp add: eval_defs getNumberOfAlarms_def IsCleared_spec_def)

text \<open>
  On every run in which no report throws, the number of alarms is the number the
  specification asks for. (A string of the program is shorter than \<open>2 ^ 64\<close>.)
\<close>

lemma notifyStatusChange_keys:
  assumes "statusmap_inv (statusmap s)" and "notifyStatusChange s st = Inr s'"
  shows "fst ` set (statusmap s') =
     (if checkSeverityString (severity st) = Inr True
      then fst ` set (statusmap s) - {pvname st}
      else insert (pvname st) (fst ` set (statusmap s)))"
proof -
  have "map_of (statusmap s) (pvname st) = None \<longleftrightarrow> pvname st \<notin> fst ` set (statusmap s)"
    by (simp add: map_of_eq_None_iff)
  moreover have "fst ` set (map_modify k f m) = fst ` set m" for k f and m :: statusmap_t
    using keys_map_modify [of k f m] by (metis list.set_map)
  ultimately show ?thesis
    unfolding notifyStatusChange_statusmap [OF assms(2)]
    using statusmap_inv_distinct [OF assms(1)]
    by (auto simp: keys_map_insert keys_map_erase)
qed

lemma step_keys:
  assumes "statusmap_inv (statusmap s)" and "step s ev = Inr s'"
    and "\<forall>p sev st now. ev = StatusChange p sev st now \<longrightarrow> length sev < 2 ^ 64"
  shows "fst ` set (statusmap s') =
     (case ev of
        StatusChange p sev st now \<Rightarrow>
          if IsCleared_spec sev then fst ` set (statusmap s) - {p}
          else insert p (fst ` set (statusmap s))
      | _ \<Rightarrow> fst ` set (statusmap s))"
proof (cases ev)
  case (StatusChange p sev st now)
  then have n: "notifyStatusChange s (newAlarmStatusEntry p sev st now) = Inr s'"
    using assms(2) by simp
  obtain b where b: "checkSeverityString sev = Inr b"
    using n by (cases "checkSeverityString sev")
      (auto simp: notifyStatusChange_def newAlarmStatusEntry_def Let_def)
  have "b = IsCleared_spec sev"
    using checkSeverityString_returns [OF _ b] assms(3) StatusChange by simp
  then show ?thesis
    using notifyStatusChange_keys [OF assms(1) n] b StatusChange
    by (auto simp: newAlarmStatusEntry_def)
next
  case (WatcherTick cfg now)
  obtain f where "statusmap (checkStatusMap cfg now s) = map (\<lambda>(k, e). (k, f e)) (statusmap s)"
    using checkStatusMap_statusmap [of cfg now s] by auto
  then have "fst ` set (statusmap (checkStatusMap cfg now s)) = fst ` set (statusmap s)"
    by force
  then show ?thesis using assms(2) WatcherTick by (auto split: if_splits)
next
  case (FlashLightTick cfg now)
  then show ?thesis using assms(2) by (auto split: if_splits)
qed

lemma run_keys:
  assumes "statusmap_inv (statusmap s)" and "run s evs = Inr s'"
    and "\<forall>p sev st now. StatusChange p sev st now \<in> set evs \<longrightarrow> length sev < 2 ^ 64"
  shows "fst ` set (statusmap s') =
     {pv. case most_recent_report pv evs of
            Some sev \<Rightarrow> \<not> IsCleared_spec sev
          | None \<Rightarrow> pv \<in> fst ` set (statusmap s)}"
  using assms
proof (induction evs arbitrary: s)
  case Nil
  then show ?case by simp
next
  case (Cons ev evs)
  from Cons.prems(2) obtain s1 where s1: "step s ev = Inr s1" and r: "run s1 evs = Inr s'"
    by (cases "step s ev") auto
  have h1: "\<forall>p sev st now. ev = StatusChange p sev st now \<longrightarrow> length sev < 2 ^ 64"
    using Cons.prems(3) by auto
  have h2: "\<forall>p sev st now. StatusChange p sev st now \<in> set evs \<longrightarrow> length sev < 2 ^ 64"
    using Cons.prems(3) by auto
  note k1 = step_keys [OF Cons.prems(1) s1 h1]
  note ih = Cons.IH [OF step_statusmap_inv [OF Cons.prems(1) s1] r h2]
  show ?case
  proof (cases ev)
    case (StatusChange p sev st now)
    show ?thesis
      unfolding ih using k1 StatusChange
      by (auto split: option.splits if_splits)
  next
    case (WatcherTick cfg now)
    then show ?thesis unfolding ih using k1 by (auto split: option.splits)
  next
    case (FlashLightTick cfg now)
    then show ?thesis unfolding ih using k1 by (auto split: option.splits)
  qed
qed

lemma count_after_reports:
  assumes "newAlarmServerConnector env desktop beedo = Inr s0" and "run s0 evs = Inr s"
    and "\<forall>p sev st now. StatusChange p sev st now \<in> set evs \<longrightarrow> length sev < 2 ^ 64"
  shows "getNumberOfAlarms s = card (alarms_spec evs)"
proof -
  have e: "statusmap s0 = []"
    using assms(1) by (auto simp: newAlarmServerConnector_def split: if_splits sum.splits)
  then have i: "statusmap_inv (statusmap s0)" by (simp add: statusmap_inv_def)
  have "fst ` set (statusmap s) = alarms_spec evs"
    unfolding run_keys [OF i assms(2,3)] alarms_spec_def
    by (auto simp: e split: option.splits)
  moreover have "distinct (map fst (statusmap s))"
    using run_statusmap_inv [OF i assms(2)] by (rule statusmap_inv_distinct)
  ultimately show ?thesis
    unfolding getNumberOfAlarms_def
    by (metis distinct_card length_map list.set_map)
qed

text \<open>A cleared report for a PV that is not in the map changes nothing.\<close>

lemma cleared_report_untracked:
  assumes "map_of (statusmap s) pv = None" and "checkSeverityString sev = Inr True"
  shows "step s (StatusChange pv sev st now) = Inr s"
  using assms by (simp add: notifyStatusChange_def newAlarmStatusEntry_def Let_def)

end
